theory Spec2Isabelle
  imports Main
begin

section \<open>StringValue (CmdOption.h, lines 17-275)\<close>

text \<open>
  A \<open>StringValue\<close> stores the strings added to it in one text, separated by a newline,
  together with the number of strings added. The counter is a C++ \<open>int\<close> that is only
  ever incremented; it is modelled as an unbounded integer.
\<close>

record StringValue =
  m_text :: string
  m_count :: int

text \<open>The default constructor (lines 31-34): empty text, count 0.\<close>

definition StringValue_default :: StringValue where
  "StringValue_default = \<lparr>m_text = [], m_count = 0\<rparr>"

text \<open>\<open>StringValue::add\<close> (lines 57-66).\<close>

definition add :: "string \<Rightarrow> StringValue \<Rightarrow> StringValue" where
  "add str sv =
     (if m_count sv = 0 then sv\<lparr>m_text := str\<rparr>
      else sv\<lparr>m_text := m_text sv @ [CHR 0x0A] @ str\<rparr>)
     \<lparr>m_count := m_count sv + 1\<rparr>"

text \<open>\<open>explicit operator bool\<close> (lines 74-77) and \<open>count\<close> (lines 85-88).\<close>

definition operator_bool :: "StringValue \<Rightarrow> bool" where
  "operator_bool sv = (m_count sv > 0)"

definition count :: "StringValue \<Rightarrow> int" where
  "count sv = m_count sv"

text \<open>The exception thrown by the accessors, with its message.\<close>

datatype exn = invalid_argument string

text \<open>\<open>StringValue::validate\<close> (lines 203-208).\<close>

definition validate :: "StringValue \<Rightarrow> exn + unit" where
  "validate sv =
     (if m_count sv = 0 then Inl (invalid_argument ''null value'') else Inr ())"

text \<open>
  \<open>StringValue::as<T>\<close> (lines 191-198). The conversion \<open>getValue\<close> chosen by overload
  resolution for the type \<open>T\<close> is a parameter; it runs only after \<open>validate\<close>.
\<close>

definition as :: "(string \<Rightarrow> exn + 'a) \<Rightarrow> StringValue \<Rightarrow> exn + 'a" where
  "as getValue sv =
     (case validate sv of Inl e \<Rightarrow> Inl e | Inr _ \<Rightarrow> getValue (m_text sv))"

text \<open>The overload of \<open>getValue\<close> for \<open>std::string\<close> (lines 222-225).\<close>

definition getValue_string :: "string \<Rightarrow> exn + string" where
  "getValue_string str = Inr str"

section \<open>The option table (class CmdOption, lines 288-708)\<close>

text \<open>
  \<open>struct option\<close> of \<open>getopt.h\<close>: the name pointer (null until \<open>init\<close> sets it), the
  argument requirement, the flag pointer (always null here) and the value returned for
  the option.
\<close>

record long_option =
  lo_name :: "string option"
  lo_has_arg :: int
  lo_flag :: "int option"
  lo_val :: char

definition no_argument :: int where "no_argument = 0"
definition required_argument :: int where "required_argument = 1"
definition optional_argument :: int where "optional_argument = 2"

text \<open>
  The members of \<open>CmdOption\<close> (lines 693-707). \<open>m_maxIndex\<close> and the indices are C++
  \<open>int\<close>s that only count up from 0; they are modelled as unbounded integers.
\<close>

record CmdOption =
  m_usage :: string
  m_errorStr :: string
  m_shortOptStr :: string
  m_longOptions :: "long_option list"
  m_longOptNames :: "string list"
  m_maxIndex :: int
  m_indexMap :: "string \<rightharpoonup> int"
  m_options :: "int \<rightharpoonup> StringValue"
  m_arguments :: StringValue
  m_nullStrValue :: StringValue

text \<open>A freshly constructed object: the member initialisers of lines 693-707.\<close>

definition CmdOption_new :: CmdOption where
  "CmdOption_new =
     \<lparr>m_usage = [], m_errorStr = [], m_shortOptStr = '':'', m_longOptions = [],
      m_longOptNames = [], m_maxIndex = 0, m_indexMap = Map.empty, m_options = Map.empty,
      m_arguments = StringValue_default, m_nullStrValue = StringValue_default\<rparr>"

text \<open>\<open>CmdOption::good\<close> (lines 334-337).\<close>

definition good :: "CmdOption \<Rightarrow> bool" where
  "good st = (m_errorStr st = [])"

text \<open>\<open>CmdOption::addErrorStr\<close> (lines 553-559).\<close>

definition addErrorStr :: "string \<Rightarrow> CmdOption \<Rightarrow> CmdOption" where
  "addErrorStr str st =
     st\<lparr>m_errorStr :=
          (if m_errorStr st \<noteq> [] then m_errorStr st @ [CHR 0x0A] else m_errorStr st) @ str\<rparr>"

subsection \<open>Reading words and lines from a string stream\<close>

text \<open>The white space of the C locale, which \<open>operator>>\<close> skips.\<close>

definition isspace :: "char \<Rightarrow> bool" where
  "isspace c =
     (c = CHR '' '' \<or> c = CHR 0x09 \<or> c = CHR 0x0A \<or> c = CHR 0x0B \<or> c = CHR 0x0C \<or> c = CHR 0x0D)"

text \<open>
  The words that successive \<open>ss >> word\<close> extractions yield (line 574): maximal runs of
  characters that are not white space. \<open>cur\<close> is the word being read.
\<close>

fun extract_from :: "string \<Rightarrow> string \<Rightarrow> string list" where
  "extract_from cur [] = (if cur = [] then [] else [cur])"
| "extract_from cur (c # cs) =
     (if isspace c then (if cur = [] then extract_from [] cs else cur # extract_from [] cs)
      else extract_from (cur @ [c]) cs)"

definition extract_words :: "string \<Rightarrow> string list" where
  "extract_words line = extract_from [] line"

text \<open>
  The lines that successive \<open>std::getline\<close> calls yield (line 524): the text is cut at
  each newline, and a last piece without a newline is a line only when it is not empty.
\<close>

fun getline_from :: "string \<Rightarrow> string \<Rightarrow> string list" where
  "getline_from cur [] = (if cur = [] then [] else [cur])"
| "getline_from cur (c # cs) =
     (if c = CHR 0x0A then cur # getline_from [] cs else getline_from (cur @ [c]) cs)"

definition getlines :: "string \<Rightarrow> string list" where
  "getlines text = getline_from [] text"

text \<open>\<open>std::to_string\<close> of a line number, which is never negative.\<close>

fun to_string :: "nat \<Rightarrow> string" where
  "to_string n =
     (if n < 10 then [''0123456789'' ! n]
      else to_string (n div 10) @ [''0123456789'' ! (n mod 10)])"

text \<open>
  \<open>word.find_first_of("=")\<close>: the position of the first occurrence, \<open>None\<close> for
  \<open>npos\<close>; and \<open>substr\<close> for a start position inside the string.
\<close>

definition find_first_of :: "string \<Rightarrow> char \<Rightarrow> nat option" where
  "find_first_of s c =
     (if c \<in> set s then Some (length (takeWhile (\<lambda>x. x \<noteq> c) s)) else None)"

definition substr :: "string \<Rightarrow> nat \<Rightarrow> nat \<Rightarrow> string" where
  "substr s pos len = take len (drop pos s)"

subsection \<open>parseOptLine: the word loop (lines 573-634)\<close>

text \<open>
  The loop either leaves the function with \<open>return b\<close>, or ends (no more words, or the
  \<open>break\<close> at the third word) with the locals \<open>n\<close>, \<open>shortOpt\<close>, \<open>longOpt\<close> and
  \<open>argReqmt\<close>. The character 0 in \<open>shortOpt\<close> means that no short option is set.
\<close>

datatype loop_exit = Return bool | Finished nat char string int

fun word_loop :: "nat \<Rightarrow> char \<Rightarrow> string \<Rightarrow> int \<Rightarrow> string list \<Rightarrow> loop_exit" where
  "word_loop n shortOpt longOpt argReqmt [] = Finished n shortOpt longOpt argReqmt"
| "word_loop n0 shortOpt longOpt argReqmt (word # ws) =
     (let n = n0 + 1 in
      if n > 2 then Finished n shortOpt longOpt argReqmt
      else if length word \<le> 1 then Return False
      else if word ! 0 \<noteq> CHR ''-'' then
        (if n = 1 then Return True else word_loop n shortOpt longOpt argReqmt ws)
      else if word ! 1 = CHR ''-'' then
        (case find_first_of word (CHR ''='') of
           None \<Rightarrow> word_loop n shortOpt (drop 2 word) no_argument ws
         | Some pos \<Rightarrow>
             if word ! (pos - 1) = CHR ''['' then
               (if last word \<noteq> CHR '']'' then Return False
                else word_loop n shortOpt (substr word 2 (pos - 1 - 2)) optional_argument ws)
             else word_loop n shortOpt (substr word 2 (pos - 2)) required_argument ws)
      else if shortOpt \<noteq> CHR 0x00 \<or> (length word = 3 \<and> word ! 2 \<noteq> CHR '','')
              \<or> length word > 3 then Return False
      else word_loop n (word ! 1) longOpt argReqmt ws)"

subsection \<open>parseOptLine: registering the aliases (lines 653-687)\<close>

text \<open>
  The block for the short option (lines 654-670), given the flag \<open>indexUsed\<close> so far; it
  returns the new flag with the new state.
\<close>

definition register_short :: "char \<Rightarrow> int \<Rightarrow> CmdOption \<times> bool \<Rightarrow> CmdOption \<times> bool" where
  "register_short shortOpt argReqmt p =
     (case p of (st, indexUsed) \<Rightarrow>
        if shortOpt \<noteq> CHR 0x00 then
          (let st1 = st\<lparr>m_shortOptStr :=
                          m_shortOptStr st @ [shortOpt] @
                          (if argReqmt = required_argument \<or> argReqmt = optional_argument
                           then '':'' else [])\<rparr>;
               str = [shortOpt]
           in if m_indexMap st1 str \<noteq> None
              then (addErrorStr (''duplicate short option: '' @ str) st1, indexUsed)
              else (st1\<lparr>m_indexMap := (m_indexMap st1)(str \<mapsto> m_maxIndex st1)\<rparr>, True))
        else (st, indexUsed))"

text \<open>The block for the long option (lines 672-683).\<close>

definition register_long ::
    "char \<Rightarrow> string \<Rightarrow> int \<Rightarrow> CmdOption \<times> bool \<Rightarrow> CmdOption \<times> bool" where
  "register_long shortOpt longOpt argReqmt p =
     (case p of (st, indexUsed) \<Rightarrow>
        if longOpt \<noteq> [] then
          (let st1 = st\<lparr>m_longOptNames := m_longOptNames st @ [longOpt],
                         m_longOptions := m_longOptions st @
                           [\<lparr>lo_name = None, lo_has_arg = argReqmt, lo_flag = None,
                             lo_val = shortOpt\<rparr>]\<rparr>
           in if m_indexMap st1 longOpt \<noteq> None
              then (addErrorStr (''duplicate long option: '' @ longOpt) st1, indexUsed)
              else (st1\<lparr>m_indexMap := (m_indexMap st1)(longOpt \<mapsto> m_maxIndex st1)\<rparr>, True))
        else (st, indexUsed))"

text \<open>Lines 653-687 as a whole: both blocks, then the increment of \<open>m_maxIndex\<close>.\<close>

definition register_aliases :: "char \<Rightarrow> string \<Rightarrow> int \<Rightarrow> CmdOption \<Rightarrow> CmdOption" where
  "register_aliases shortOpt longOpt argReqmt st =
     (case register_long shortOpt longOpt argReqmt
             (register_short shortOpt argReqmt (st, False)) of
        (st2, indexUsed) \<Rightarrow>
          if indexUsed then st2\<lparr>m_maxIndex := m_maxIndex st2 + 1\<rparr> else st2)"

subsection \<open>parseOptLine, parseLine and init\<close>

text \<open>
  \<open>CmdOption::parseOptLine\<close> (lines 564-690): the returned flag and the new state. The
  line number \<open>i\<close> is a parameter the function does not use.
\<close>

definition parseOptLine :: "nat \<Rightarrow> string \<Rightarrow> CmdOption \<Rightarrow> bool \<times> CmdOption" where
  "parseOptLine i line st =
     (case word_loop 0 (CHR 0x00) [] 0 (extract_words line) of
        Return b \<Rightarrow> (b, st)
      | Finished n shortOpt longOpt argReqmt0 \<Rightarrow>
          if n = 0 then (True, st)
          else if shortOpt = CHR 0x00 \<and> longOpt = [] then (False, st)
          else
            (let argReqmt =
               (if longOpt = []
                then (if n = 2 then required_argument else no_argument)
                else argReqmt0)
             in (True, register_aliases shortOpt longOpt argReqmt st)))"

text \<open>\<open>CmdOption::parseLine\<close> (lines 543-548).\<close>

definition parseLine :: "nat \<Rightarrow> string \<Rightarrow> CmdOption \<Rightarrow> CmdOption" where
  "parseLine i line st =
     (case parseOptLine i line st of
        (ok, st') \<Rightarrow>
          if \<not> ok
          then addErrorStr (''invalid option at line: '' @ to_string i @ [CHR 0x0A] @ line) st'
          else st')"

text \<open>
  The loop of \<open>CmdOption::init\<close> (lines 523-526) over the lines still to be read:
  \<open>good()\<close> is tested before each line is fetched.
\<close>

fun init_loop :: "nat \<Rightarrow> string list \<Rightarrow> CmdOption \<Rightarrow> CmdOption" where
  "init_loop i [] st = st"
| "init_loop i (line # ls) st =
     (if good st then init_loop (i + 1) ls (parseLine i line st) else st)"

text \<open>
  The second loop of \<open>init\<close> (lines 529-531): the name pointers of the first
  \<open>m_longOptNames.size()\<close> descriptors are set. Every name was pushed together with a
  descriptor, so each index is in range.
\<close>

fun set_names :: "nat \<Rightarrow> string list \<Rightarrow> long_option list \<Rightarrow> long_option list" where
  "set_names i [] opts = opts"
| "set_names i (nm # nms) opts =
     set_names (i + 1) nms (opts[i := (opts ! i)\<lparr>lo_name := Some nm\<rparr>])"

text \<open>\<open>CmdOption::init\<close> (lines 519-532).\<close>

definition init :: "CmdOption \<Rightarrow> CmdOption" where
  "init st =
     (let st1 = init_loop 0 (getlines (m_usage st)) st;
          st2 = st1\<lparr>m_longOptions := m_longOptions st1 @
                   [\<lparr>lo_name = None, lo_has_arg = 0, lo_flag = None, lo_val = CHR 0x00\<rparr>]\<rparr>
      in st2\<lparr>m_longOptions := set_names 0 (m_longOptNames st2) (m_longOptions st2)\<rparr>)"

text \<open>\<open>CmdOption::operator<<\<close> (lines 311-315).\<close>

definition operator_shl :: "string \<Rightarrow> CmdOption \<Rightarrow> CmdOption" where
  "operator_shl usage st = init (st\<lparr>m_usage := usage\<rparr>)"

section \<open>Dispatch (CmdOption::parse, lines 346-408)\<close>

text \<open>
  The global variables of \<open>getopt.h\<close> that \<open>parse\<close> reads and writes. A scanner may keep
  more state of its own; the record is extended by it. \<open>optind\<close> holds an index into
  \<open>argv\<close> and is modelled as a natural number.
\<close>

record getopt_vars =
  optind :: nat
  optarg :: "string option"
  optopt :: int
  opterr :: int

text \<open>
  \<open>getopt_long\<close> belongs to the C library, not to this repository, so \<open>parse\<close> takes it
  as a parameter: from \<open>argv\<close> (the argument count is its length), the short option
  string, the long option descriptors and the global variables, it gives the returned
  value, the value left in \<open>option_index\<close> (which \<open>parse\<close> sets to 0 before each call),
  \<open>argv\<close> (which the scanner may reorder) and the new global variables.
\<close>

type_synonym 'h scanner =
  "string list \<Rightarrow> string \<Rightarrow> long_option list \<Rightarrow> 'h getopt_vars_scheme
     \<Rightarrow> int \<times> nat \<times> string list \<times> 'h getopt_vars_scheme"

text \<open>
  What C++ leaves undefined in \<open>parse\<close>: \<open>&m_longOptions[0]\<close> on an empty vector (line
  355, when no usage text was ever given) and \<open>m_longOptNames[option_index]\<close> out of
  range (line 366).
\<close>

datatype undefined_behaviour = empty_vector_access | vector_index_out_of_range

text \<open>
  Lines 391-396: the argument text, or the empty string, is added to the value of
  \<open>index\<close>; \<open>m_options[index]\<close> creates a default value when there is none.
\<close>

definition record_occurrence :: "int \<Rightarrow> string option \<Rightarrow> CmdOption \<Rightarrow> CmdOption" where
  "record_occurrence index arg st =
     st\<lparr>m_options := (m_options st)(index \<mapsto>
          add (case arg of Some a \<Rightarrow> a | None \<Rightarrow> [])
              (case m_options st index of Some sv \<Rightarrow> sv | None \<Rightarrow> StringValue_default))\<rparr>"

text \<open>
  The scan loop (lines 350-397). \<open>None\<close> is a loop that never ends. The lookup
  \<open>m_indexMap[name]\<close> of line 366 inserts the index 0 for a name that is absent. The
  local \<open>this_option_optind\<close> of line 351 is never read and is left out.
\<close>

partial_function (option) parse_loop ::
    "'h scanner \<Rightarrow> CmdOption \<Rightarrow> string list \<Rightarrow> 'h getopt_vars_scheme
       \<Rightarrow> (undefined_behaviour + CmdOption \<times> string list \<times> 'h getopt_vars_scheme) option"
where
  "parse_loop getopt_long st argv g =
     (if m_longOptions st = [] then Some (Inl empty_vector_access)
      else
        case getopt_long argv (m_shortOptStr st) (m_longOptions st) g of
          (c, option_index, argv', g') \<Rightarrow>
            if c < 0 then Some (Inr (st, argv', g'))
            else if c = 0 then
              (if option_index < length (m_longOptNames st) then
                 (let nm = m_longOptNames st ! option_index;
                      st1 = (if m_indexMap st nm = None
                             then st\<lparr>m_indexMap := (m_indexMap st)(nm \<mapsto> 0)\<rparr> else st);
                      index = (case m_indexMap st1 nm of Some i \<Rightarrow> i | None \<Rightarrow> 0)
                  in parse_loop getopt_long (record_occurrence index (optarg g') st1) argv' g')
               else Some (Inl vector_index_out_of_range))
            else if c = of_char (CHR ''?'') then
              parse_loop getopt_long
                (addErrorStr (''Unknown option: '' @ [char_of (optopt g')]) st) argv' g'
            else if c = of_char (CHR '':'') then
              parse_loop getopt_long
                (addErrorStr (''Missing argument for: '' @ [char_of (optopt g')]) st) argv' g'
            else
              (let str = [char_of c] in
               case m_indexMap st str of
                 None \<Rightarrow> Some (Inr (addErrorStr (''unknown short option: '' @ str) st, argv', g'))
               | Some index \<Rightarrow>
                   parse_loop getopt_long (record_occurrence index (optarg g') st) argv' g'))"

text \<open>
  The occurrences that the scan loop records, in order: the loop of lines 350-397 once
  more, branch by branch and through the same states, returning the pairs of index and
  text that lines 391-396 pass to \<open>m_options[index].add\<close> (the empty list where the loop
  is left at once).
\<close>

partial_function (option) recorded_occurrences ::
    "'h scanner \<Rightarrow> CmdOption \<Rightarrow> string list \<Rightarrow> 'h getopt_vars_scheme
       \<Rightarrow> (int \<times> string) list option"
where
  "recorded_occurrences getopt_long st argv g =
     (if m_longOptions st = [] then Some []
      else
        case getopt_long argv (m_shortOptStr st) (m_longOptions st) g of
          (c, option_index, argv', g') \<Rightarrow>
            if c < 0 then Some []
            else if c = 0 then
              (if option_index < length (m_longOptNames st) then
                 (let nm = m_longOptNames st ! option_index;
                      st1 = (if m_indexMap st nm = None
                             then st\<lparr>m_indexMap := (m_indexMap st)(nm \<mapsto> 0)\<rparr> else st);
                      index = (case m_indexMap st1 nm of Some i \<Rightarrow> i | None \<Rightarrow> 0)
                  in Option.bind
                       (recorded_occurrences getopt_long
                          (record_occurrence index (optarg g') st1) argv' g')
                       (\<lambda>occ. Some ((index, case optarg g' of Some a \<Rightarrow> a | None \<Rightarrow> []) # occ)))
               else Some [])
            else if c = of_char (CHR ''?'') then
              recorded_occurrences getopt_long
                (addErrorStr (''Unknown option: '' @ [char_of (optopt g')]) st) argv' g'
            else if c = of_char (CHR '':'') then
              recorded_occurrences getopt_long
                (addErrorStr (''Missing argument for: '' @ [char_of (optopt g')]) st) argv' g'
            else
              (let str = [char_of c] in
               case m_indexMap st str of
                 None \<Rightarrow> Some []
               | Some index \<Rightarrow>
                   Option.bind
                     (recorded_occurrences getopt_long
                        (record_occurrence index (optarg g') st) argv' g')
                     (\<lambda>occ. Some ((index, case optarg g' of Some a \<Rightarrow> a | None \<Rightarrow> []) # occ))))"

text \<open>The loop of lines 399-404: the tokens from \<open>optind\<close> on are added to the arguments.\<close>

function collect_rest :: "string list \<Rightarrow> nat \<Rightarrow> StringValue \<Rightarrow> nat \<times> StringValue" where
  "collect_rest argv i sv =
     (if i < length argv then collect_rest argv (i + 1) (add (argv ! i) sv) else (i, sv))"
  by pat_completeness auto
termination
  by (relation "measure (\<lambda>(argv, i, sv). length argv - i)") auto

declare collect_rest.simps [simp del]

text \<open>
  \<open>CmdOption::parse\<close> (lines 346-408): \<open>opterr\<close> is cleared, the scan loop runs, the
  remaining tokens are collected, and \<open>optind\<close> is set to 0.
\<close>

definition parse ::
    "'h scanner \<Rightarrow> string list \<Rightarrow> CmdOption \<Rightarrow> 'h getopt_vars_scheme
       \<Rightarrow> (undefined_behaviour + CmdOption \<times> string list \<times> 'h getopt_vars_scheme) option"
where
  "parse getopt_long argv st g =
     (case parse_loop getopt_long st argv (g\<lparr>opterr := 0\<rparr>) of
        None \<Rightarrow> None
      | Some (Inl u) \<Rightarrow> Some (Inl u)
      | Some (Inr (st1, argv1, g1)) \<Rightarrow>
          (case collect_rest argv1 (optind g1) (m_arguments st1) of
             (i, sv) \<Rightarrow> Some (Inr (st1\<lparr>m_arguments := sv\<rparr>, argv1, g1\<lparr>optind := 0\<rparr>))))"

section \<open>Accessors\<close>

text \<open>\<open>CmdOption::operator[]\<close> (lines 419-434).\<close>

definition operator_index :: "string \<Rightarrow> CmdOption \<Rightarrow> exn + StringValue" where
  "operator_index opt st =
     (case m_indexMap st opt of
        None \<Rightarrow> Inl (invalid_argument (''unknown option: '' @ opt))
      | Some index \<Rightarrow>
          (case m_options st index of
             None \<Rightarrow> Inr (m_nullStrValue st)
           | Some sv \<Rightarrow> Inr sv))"

text \<open>\<open>CmdOption::arguments\<close> (lines 442-445).\<close>

definition arguments :: "CmdOption \<Rightarrow> StringValue" where
  "arguments st = m_arguments st"

section \<open>A scanner to run the dispatcher on\<close>

text \<open>
  Modelled from the spec: the underlying token scanner, \<open>getopt_long\<close> of the C library,
  is not part of the repository. The spec (sections 4.4 and 6) describes it as yielding,
  call by call, end of input, a matched long option, a matched short option, an unknown
  option or a missing argument, with an attached argument string and a shared cursor.
  The model below scans in the order of \<open>argv\<close> and stops at the first token that is not
  an option; long names are matched exactly. Its own state is \<open>nextchar\<close>, the position
  inside a token of clustered short options (0 between tokens). A cursor of 0 makes it
  start again from its initial state, keeping \<open>opterr\<close>.
\<close>

record getopt_state = getopt_vars +
  nextchar :: nat

text \<open>Modelled from the spec: the scanner's state before its first use.\<close>

definition getopt_initial :: getopt_state where
  "getopt_initial =
     \<lparr>optind = 1, optarg = None, optopt = of_char (CHR ''?''), opterr = 1, nextchar = 0\<rparr>"

text \<open>
  Modelled from the spec: the descriptor whose name is \<open>nm\<close>, with its index, searched
  up to the entry without a name that ends the list.
\<close>

fun find_long :: "string \<Rightarrow> long_option list \<Rightarrow> nat \<Rightarrow> (nat \<times> long_option) option" where
  "find_long nm [] k = None"
| "find_long nm (p # ps) k =
     (case lo_name p of
        None \<Rightarrow> None
      | Some n \<Rightarrow> if n = nm then Some (k, p) else find_long nm ps (k + 1))"

text \<open>
  Modelled from the spec: the number of colons (0, 1 or 2) after the first occurrence of
  the option character in the short option string; a colon is never an option.
\<close>

fun find_short :: "char \<Rightarrow> string \<Rightarrow> nat option" where
  "find_short c [] = None"
| "find_short c (x # xs) =
     (if x = c \<and> c \<noteq> CHR '':''
      then Some (length (takeWhile (\<lambda>y. y = CHR '':'') (take 2 xs)))
      else find_short c xs)"

text \<open>
  Modelled from the spec: the value returned for a missing argument, a colon when the
  short option string begins with one.
\<close>

definition missing_signal :: "string \<Rightarrow> int" where
  "missing_signal optstring =
     (if optstring \<noteq> [] \<and> hd optstring = CHR '':'' then of_char (CHR '':'')
      else of_char (CHR ''?''))"

text \<open>
  Modelled from the spec: the token \<open>a\<close> begins with \<open>--\<close>. Its name ends at the
  first \<open>=\<close>; an argument is what follows the \<open>=\<close>, or the next token when the
  option requires one.
\<close>

definition long_step ::
    "string list \<Rightarrow> string \<Rightarrow> long_option list \<Rightarrow> getopt_state \<Rightarrow> string
       \<Rightarrow> int \<times> nat \<times> string list \<times> getopt_state" where
  "long_step argv optstring longopts g a =
     (let nm = takeWhile (\<lambda>x. x \<noteq> CHR ''='') (drop 2 a);
          g1 = g\<lparr>optind := optind g + 1\<rparr>
      in case find_long nm longopts 0 of
           None \<Rightarrow> (of_char (CHR ''?''), 0, argv, g1\<lparr>optopt := 0\<rparr>)
         | Some (k, p) \<Rightarrow>
             (let v = (case lo_flag p of None \<Rightarrow> of_char (lo_val p) | Some _ \<Rightarrow> 0) in
              if CHR ''='' \<in> set a then
                (if lo_has_arg p \<noteq> no_argument
                 then (v, k, argv, g1\<lparr>optarg := Some (drop (length nm + 3) a)\<rparr>)
                 else (of_char (CHR ''?''), 0, argv, g1\<lparr>optopt := of_char (lo_val p)\<rparr>))
              else if lo_has_arg p = required_argument then
                (if optind g1 < length argv
                 then (v, k, argv,
                       g1\<lparr>optarg := Some (argv ! optind g1), optind := optind g1 + 1\<rparr>)
                 else (missing_signal optstring, 0, argv,
                       g1\<lparr>optopt := of_char (lo_val p)\<rparr>))
              else (v, k, argv, g1)))"

text \<open>
  Modelled from the spec: the next character of a token of short options. An argument
  is the rest of the token, or the next token when the option requires one.
\<close>

definition short_step ::
    "string list \<Rightarrow> string \<Rightarrow> getopt_state \<Rightarrow> int \<times> nat \<times> string list \<times> getopt_state" where
  "short_step argv optstring g =
     (if optind g \<ge> length argv \<or> nextchar g \<ge> length (argv ! optind g)
      then (- 1, 0, argv, g\<lparr>nextchar := 0\<rparr>)
      else
        (let a = argv ! optind g;
             c = a ! nextchar g;
             at_end = (nextchar g + 1 \<ge> length a);
             g1 = (if at_end then g\<lparr>optind := optind g + 1, nextchar := 0\<rparr>
                   else g\<lparr>nextchar := nextchar g + 1\<rparr>)
         in case find_short c optstring of
              None \<Rightarrow> (of_char (CHR ''?''), 0, argv, g1\<lparr>optopt := of_char c\<rparr>)
            | Some colons \<Rightarrow>
                if colons = 0 then (of_char c, 0, argv, g1)
                else if \<not> at_end then
                  (of_char c, 0, argv,
                   g1\<lparr>optarg := Some (drop (nextchar g + 1) a), optind := optind g + 1,
                      nextchar := 0\<rparr>)
                else if colons = 2 then (of_char c, 0, argv, g1)
                else if optind g1 < length argv then
                  (of_char c, 0, argv,
                   g1\<lparr>optarg := Some (argv ! optind g1), optind := optind g1 + 1\<rparr>)
                else (missing_signal optstring, 0, argv, g1\<lparr>optopt := of_char c\<rparr>)))"

text \<open>
  Modelled from the spec: one call of the scanner. It returns \<open>-1\<close> at the end of
  \<open>argv\<close>, at a token that is not an option, and after the token \<open>--\<close>.
\<close>

definition getopt_long_model ::
    "string list \<Rightarrow> string \<Rightarrow> long_option list \<Rightarrow> getopt_state
       \<Rightarrow> int \<times> nat \<times> string list \<times> getopt_state" where
  "getopt_long_model argv optstring longopts g =
     (let g0 = (if optind g = 0 then getopt_initial\<lparr>opterr := opterr g\<rparr> else g)
                 \<lparr>optarg := None\<rparr>
      in if nextchar g0 = 0 then
           (if optind g0 \<ge> length argv then (- 1, 0, argv, g0)
            else
              (let a = argv ! optind g0 in
               if length a < 2 \<or> a ! 0 \<noteq> CHR ''-'' then (- 1, 0, argv, g0)
               else if a = ''--'' then (- 1, 0, argv, g0\<lparr>optind := optind g0 + 1\<rparr>)
               else if a ! 1 = CHR ''-'' then long_step argv optstring longopts g0 a
               else short_step argv optstring (g0\<lparr>nextchar := 1\<rparr>)))
         else short_step argv optstring g0)"

text \<open>
  Modelled from the spec: the number of characters the scanner model has still to read,
  counting one more for each token. Every call that returns an option makes it smaller.
\<close>

definition unread :: "string list \<Rightarrow> getopt_state \<Rightarrow> nat" where
  "unread argv g =
     (if optind g = 0 then sum_list (map (\<lambda>a. length a + 1) (drop 1 argv))
      else sum_list (map (\<lambda>a. length a + 1) (drop (optind g) argv)) - nextchar g)"

section \<open>Table building: diagnostics and the line loop\<close>

lemma addErrorStr_fields [simp]:
  "m_usage (addErrorStr s st) = m_usage st"
  "m_shortOptStr (addErrorStr s st) = m_shortOptStr st"
  "m_longOptions (addErrorStr s st) = m_longOptions st"
  "m_longOptNames (addErrorStr s st) = m_longOptNames st"
  "m_maxIndex (addErrorStr s st) = m_maxIndex st"
  "m_indexMap (addErrorStr s st) = m_indexMap st"
  "m_options (addErrorStr s st) = m_options st"
  "m_arguments (addErrorStr s st) = m_arguments st"
  "m_nullStrValue (addErrorStr s st) = m_nullStrValue st"
  by (simp_all add: addErrorStr_def)

lemma addErrorStr_text:
  "m_errorStr (addErrorStr s st) =
     (if m_errorStr st = [] then s else m_errorStr st @ [CHR 0x0A] @ s)"
  by (simp add: addErrorStr_def)

lemma addErrorStr_not_good: "s \<noteq> [] \<Longrightarrow> \<not> good (addErrorStr s st)"
  by (simp add: good_def addErrorStr_def)

lemma parseOptLine_invalid_state: "parseOptLine i l st = (False, st') \<Longrightarrow> st' = st"
  by (auto simp: parseOptLine_def Let_def split: loop_exit.splits if_splits)

lemma init_loop_stops: "\<not> good st \<Longrightarrow> init_loop i ls st = st"
  by (cases ls) simp_all

lemma init_loop_append:
  "init_loop i (pre @ rest) st =
     (if good (init_loop i pre st) then init_loop (i + length pre) rest (init_loop i pre st)
      else init_loop i pre st)"
proof (induction pre arbitrary: i st)
  case Nil
  then show ?case by (simp add: init_loop_stops)
next
  case (Cons l pre)
  show ?case
  proof (cases "good st")
    case True
    then show ?thesis using Cons.IH [of "i + 1" "parseLine i l st"] by simp
  next
    case False
    then show ?thesis by (simp add: init_loop_stops)
  qed
qed

text \<open>
  C1 (as amended). The lines of the usage text are processed in order only while no
  diagnostic has been recorded. If the state reached after the lines \<open>pre\<close> holds a
  diagnostic, no line after them is examined: the result does not depend on the lines
  \<open>rest\<close>. If it holds none, processing goes on with \<open>rest\<close>. A line for which
  \<open>parseOptLine\<close> returns false records the text \<open>invalid option at line: N\<close>, a
  newline and the line itself, after a newline if a diagnostic was there before, and the
  state is not good afterwards.
\<close>

theorem init_stops_at_first_diagnostic:
  "(\<not> good (init_loop i pre st) \<longrightarrow> init_loop i (pre @ rest) st = init_loop i pre st) \<and>
   (good (init_loop i pre st) \<longrightarrow>
      init_loop i (pre @ rest) st = init_loop (i + length pre) rest (init_loop i pre st)) \<and>
   (\<not> fst (parseOptLine i l st) \<longrightarrow>
      \<not> good (parseLine i l st) \<and>
      m_errorStr (parseLine i l st) =
        (if m_errorStr st = [] then [] else m_errorStr st @ [CHR 0x0A]) @
        ''invalid option at line: '' @ to_string i @ [CHR 0x0A] @ l)"
proof -
  have "\<not> good (parseLine i l st) \<and>
      m_errorStr (parseLine i l st) =
        (if m_errorStr st = [] then [] else m_errorStr st @ [CHR 0x0A]) @
        ''invalid option at line: '' @ to_string i @ [CHR 0x0A] @ l"
    if h: "\<not> fst (parseOptLine i l st)"
  proof -
    from h have "\<exists>st'. parseOptLine i l st = (False, st')"
      by (cases "parseOptLine i l st") auto
    then obtain st' where p: "parseOptLine i l st = (False, st')" ..
    then have "st' = st" by (rule parseOptLine_invalid_state)
    with p show ?thesis
      by (simp add: parseLine_def addErrorStr_text good_def)
  qed
  then show ?thesis by (simp add: init_loop_append)
qed

text \<open>The definitions that evaluating the table builder on a given text unfolds.\<close>

lemmas table_defs =
  operator_shl_def init_def getlines_def CmdOption_new_def StringValue_default_def Let_def
  parseLine_def parseOptLine_def extract_words_def isspace_def find_first_of_def substr_def
  no_argument_def required_argument_def optional_argument_def
  register_aliases_def register_short_def register_long_def good_def addErrorStr_def

text \<open>
  The theorem at the lines \<open>-abcd\<close> (invalid: four characters), \<open>-x\<close> and \<open>-wxyz\<close>,
  and at the lines \<open>-a\<close> and \<open>-b\<close>.
\<close>

theorem init_stops_at_first_diagnostic_witness:
  "\<not> good (init_loop 0 [''-abcd''] CmdOption_new) \<and>
   init_loop 0 ([''-abcd''] @ [''-x'', ''-wxyz'']) CmdOption_new = init_loop 0 [''-abcd''] CmdOption_new \<and>
   good (init_loop 0 [''-a''] CmdOption_new) \<and>
   init_loop 0 ([''-a''] @ [''-b'']) CmdOption_new =
     init_loop (0 + length [''-a'']) [''-b''] (init_loop 0 [''-a''] CmdOption_new) \<and>
   \<not> fst (parseOptLine 7 ''-abcd'' CmdOption_new) \<and>
   m_errorStr (parseLine 7 ''-abcd'' CmdOption_new) =
     ''invalid option at line: 7'' @ [CHR 0x0A] @ ''-abcd''"
proof -
  have a: "\<not> good (init_loop 0 [''-abcd''] CmdOption_new)"
    by (simp add: table_defs)
  have b: "good (init_loop 0 [''-a''] CmdOption_new)"
    by (simp add: table_defs)
  have c: "\<not> fst (parseOptLine 7 ''-abcd'' CmdOption_new)"
    by (simp add: table_defs)
  have e: "m_errorStr CmdOption_new = []"
    by (simp add: CmdOption_new_def)
  from a b c e
    init_stops_at_first_diagnostic [of 0 "[''-abcd'']" CmdOption_new "[''-x'', ''-wxyz'']"]
    init_stops_at_first_diagnostic [of 0 "[''-a'']" CmdOption_new "[''-b'']"]
    init_stops_at_first_diagnostic [of 7 "[]" CmdOption_new "[]" "''-abcd''"]
  show ?thesis by simp
qed

text \<open>
  C1 as stated fails. For the usage text with the lines \<open>-abcd\<close>, \<open>-x\<close> and \<open>-wxyz\<close>,
  the table holds the diagnostic of line 0 only and the alias \<open>x\<close> is not registered,
  whereas processing all three lines would register \<open>x\<close> and record a second diagnostic
  for line 2.
\<close>

theorem init_skips_lines_after_diagnostic:
  "m_errorStr (operator_shl (''-abcd'' @ [CHR 0x0A] @ ''-x'' @ [CHR 0x0A] @ ''-wxyz'') CmdOption_new)
     = ''invalid option at line: 0'' @ [CHR 0x0A] @ ''-abcd'' \<and>
   m_indexMap (operator_shl (''-abcd'' @ [CHR 0x0A] @ ''-x'' @ [CHR 0x0A] @ ''-wxyz'') CmdOption_new)
     ''x'' = None \<and>
   m_indexMap (parseLine 1 ''-x'' (parseLine 0 ''-abcd'' CmdOption_new)) ''x'' = Some 0 \<and>
   m_errorStr (parseLine 2 ''-wxyz'' (parseLine 1 ''-x'' (parseLine 0 ''-abcd'' CmdOption_new)))
     = ''invalid option at line: 0'' @ [CHR 0x0A] @ ''-abcd'' @ [CHR 0x0A] @
       ''invalid option at line: 2'' @ [CHR 0x0A] @ ''-wxyz''"
  by (simp add: table_defs)

section \<open>The word loop\<close>

lemma word_loop_count:
  "n0 \<le> 2 \<Longrightarrow> word_loop n0 s l a ws = Finished n s' l' a' \<Longrightarrow> n = min (n0 + length ws) 3"
proof (induction ws arbitrary: n0 s l a)
  case Nil
  then show ?case by simp
next
  case (Cons w ws)
  show ?case
  proof (cases "n0 = 2")
    case True
    with Cons.prems show ?thesis by simp
  next
    case False
    with Cons.prems have le: "n0 + 1 \<le> 2" by simp
    have IH: "\<And>s l a. word_loop (Suc n0) s l a ws = Finished n s' l' a'
        \<Longrightarrow> n = Suc (min (n0 + length ws) 2)"
      using Cons.IH [of "Suc n0"] le by simp
    from Cons.prems False le show ?thesis
      by (auto simp: Let_def split: if_splits option.splits dest!: IH)
  qed
qed

lemma find_first_of_absent: "c \<notin> set s \<Longrightarrow> find_first_of s c = None"
  by (simp add: find_first_of_def)

lemma find_first_of_present:
  assumes "c \<notin> set pre"
  shows "find_first_of (pre @ c # post) c = Some (length pre)"
proof -
  have "takeWhile (\<lambda>x. x \<noteq> c) (pre @ c # post) = pre @ takeWhile (\<lambda>x. x \<noteq> c) (c # post)"
    by (rule takeWhile_append2) (use assms in auto)
  then show ?thesis by (simp add: find_first_of_def)
qed

text \<open>The branch of the loop body for a word that starts with two dashes.\<close>

lemma word_loop_long:
  assumes "n0 < 2" "2 \<le> length word" "word ! 0 = CHR ''-''" "word ! 1 = CHR ''-''"
  shows "word_loop n0 s l a (word # ws) =
     (case find_first_of word (CHR ''='') of
        None \<Rightarrow> word_loop (n0 + 1) s (drop 2 word) no_argument ws
      | Some pos \<Rightarrow>
          if word ! (pos - 1) = CHR ''['' then
            (if last word \<noteq> CHR '']'' then Return False
             else word_loop (n0 + 1) s (substr word 2 (pos - 1 - 2)) optional_argument ws)
          else word_loop (n0 + 1) s (substr word 2 (pos - 2)) required_argument ws)"
  using assms by (simp add: Let_def split: option.split)

lemma long_word_plain:
  assumes "n0 < 2" "CHR ''='' \<notin> set nm"
  shows "word_loop n0 s l a ((''--'' @ nm) # ws) = word_loop (n0 + 1) s nm no_argument ws"
proof -
  define w where "w = ''--'' @ nm"
  have "find_first_of w (CHR ''='') = None" "2 \<le> length w" "w ! 0 = CHR ''-''"
       "w ! 1 = CHR ''-''" "drop 2 w = nm"
    using assms(2) by (simp_all add: find_first_of_absent w_def)
  then have "word_loop n0 s l a (w # ws) = word_loop (n0 + 1) s nm no_argument ws"
    using word_loop_long [OF assms(1), of w s l a ws] by simp
  then show ?thesis by (simp add: w_def)
qed

lemma long_word_required:
  assumes "n0 < 2" "CHR ''='' \<notin> set nm" "nm = [] \<or> last nm \<noteq> CHR ''[''"
  shows "word_loop n0 s l a ((''--'' @ nm @ ''='' @ tail) # ws) =
         word_loop (n0 + 1) s nm required_argument ws"
proof -
  define w where "w = ''--'' @ nm @ ''='' @ tail"
  have "CHR ''='' \<notin> set (''--'' @ nm)" using assms(2) by simp
  then have "find_first_of ((''--'' @ nm) @ CHR ''='' # tail) (CHR ''='') = Some (length (''--'' @ nm))"
    by (rule find_first_of_present)
  then have pos: "find_first_of w (CHR ''='') = Some (length nm + 2)"
    by (simp add: w_def)
  have before: "w ! (length nm + 2 - 1) \<noteq> CHR ''[''"
  proof (cases "nm = []")
    case True
    then show ?thesis by (simp add: w_def)
  next
    case False
    then have "w ! (length nm + 2 - 1) = last nm"
      by (simp add: w_def nth_append last_conv_nth nth_Cons')
    then show ?thesis using assms(3) False by simp
  qed
  have rest: "2 \<le> length w" "w ! 0 = CHR ''-''" "w ! 1 = CHR ''-''"
       "substr w 2 (length nm + 2 - 2) = nm"
    by (simp_all add: w_def substr_def)
  have "word_loop n0 s l a (w # ws) = word_loop (n0 + 1) s nm required_argument ws"
    using word_loop_long [OF assms(1) rest(1,2,3), of s l a ws] pos before rest(4) by simp
  then show ?thesis by (simp add: w_def)
qed

lemma long_word_bracket_facts:
  assumes "CHR ''='' \<notin> set nm" and w: "w = ''--'' @ nm @ ''[='' @ tail"
  shows "find_first_of w (CHR ''='') = Some (length nm + 3)"
    and "w ! (length nm + 3 - 1) = CHR ''[''"
    and "substr w 2 (length nm + 3 - 1 - 2) = nm"
    and "last w = (if tail = [] then CHR ''='' else last tail)"
    and "2 \<le> length w" and "w ! 0 = CHR ''-''" and "w ! 1 = CHR ''-''"
proof -
  have "CHR ''='' \<notin> set (''--'' @ nm @ ''['')" using assms(1) by simp
  then have "find_first_of ((''--'' @ nm @ ''['') @ CHR ''='' # tail) (CHR ''='')
      = Some (length (''--'' @ nm @ ''[''))"
    by (rule find_first_of_present)
  then show "find_first_of w (CHR ''='') = Some (length nm + 3)"
    by (simp add: w)
  have "((''--'' @ nm) @ CHR ''['' # (''='' @ tail)) ! (length (''--'' @ nm)) = CHR ''[''"
    by (rule nth_append_length)
  then show "w ! (length nm + 3 - 1) = CHR ''[''"
    by (simp add: w)
  show "substr w 2 (length nm + 3 - 1 - 2) = nm"
    by (simp add: substr_def w)
  show "last w = (if tail = [] then CHR ''='' else last tail)"
    by (simp add: w)
  show "2 \<le> length w" "w ! 0 = CHR ''-''" "w ! 1 = CHR ''-''"
    by (simp_all add: w)
qed

lemma long_word_optional:
  assumes "n0 < 2" "CHR ''='' \<notin> set nm" "tail \<noteq> []" "last tail = CHR '']''"
  shows "word_loop n0 s l a ((''--'' @ nm @ ''[='' @ tail) # ws) =
         word_loop (n0 + 1) s nm optional_argument ws"
proof -
  define w where "w = ''--'' @ nm @ ''[='' @ tail"
  note f = long_word_bracket_facts [OF assms(2) w_def]
  have "word_loop n0 s l a (w # ws) = word_loop (n0 + 1) s nm optional_argument ws"
    using word_loop_long [OF assms(1) f(5,6,7), of s l a ws] f(1,2,3,4) assms(3,4) by simp
  then show ?thesis by (simp add: w_def)
qed

lemma long_word_unclosed:
  assumes "n0 < 2" "CHR ''='' \<notin> set nm" "tail = [] \<or> last tail \<noteq> CHR '']''"
  shows "word_loop n0 s l a ((''--'' @ nm @ ''[='' @ tail) # ws) = Return False"
proof -
  define w where "w = ''--'' @ nm @ ''[='' @ tail"
  note f = long_word_bracket_facts [OF assms(2) w_def]
  have "word_loop n0 s l a (w # ws) = Return False"
    using word_loop_long [OF assms(1) f(5,6,7), of s l a ws] f(1,2,3,4) assms(3) by auto
  then show ?thesis by (simp add: w_def)
qed

text \<open>
  C3. A word that begins with \<open>--\<close> and is the first or second word of its line
  (\<open>k < 2\<close> words were read before it) is classified as follows, \<open>nm\<close> being free of
  \<open>=\<close>. Without \<open>=\<close> the loop goes on with the name \<open>nm\<close>, everything after the
  dashes, and no argument. With \<open>[=\<close> after \<open>nm\<close> and a last character \<open>]\<close> it goes on
  with the name \<open>nm\<close> and an optional argument. With \<open>=\<close> after \<open>nm\<close>, where \<open>nm\<close> does
  not end in \<open>[\<close>, it goes on with the name \<open>nm\<close> and a required argument. With \<open>[=\<close>
  after \<open>nm\<close> and a last character other than \<open>]\<close> the function returns false: the
  line is invalid.
\<close>

theorem long_option_word_classification:
  "k < 2 \<Longrightarrow> CHR ''='' \<notin> set nm \<Longrightarrow>
     word_loop k s l a ((''--'' @ nm) # ws) = word_loop (k + 1) s nm no_argument ws \<and>
     (tail \<noteq> [] \<and> last tail = CHR '']'' \<longrightarrow>
        word_loop k s l a ((''--'' @ nm @ ''[='' @ tail) # ws) =
        word_loop (k + 1) s nm optional_argument ws) \<and>
     (nm = [] \<or> last nm \<noteq> CHR ''['' \<longrightarrow>
        word_loop k s l a ((''--'' @ nm @ ''='' @ tail) # ws) =
        word_loop (k + 1) s nm required_argument ws) \<and>
     (tail = [] \<or> last tail \<noteq> CHR '']'' \<longrightarrow>
        word_loop k s l a ((''--'' @ nm @ ''[='' @ tail) # ws) = Return False)"
  using long_word_plain [of k nm s l a ws] long_word_optional [of k nm tail s l a ws]
    long_word_required [of k nm s l a tail ws] long_word_unclosed [of k nm tail s l a ws]
  by blast

text \<open>
  The theorem at the words \<open>--epsilon\<close>, \<open>--epsilon[=NUM]\<close>, \<open>--epsilon=NUM\<close>,
  \<open>--epsilon[=NUM\<close> and \<open>--epsilon[=\<close>.
\<close>

theorem long_option_word_classification_witness:
  "(0::nat) < 2 \<and> CHR ''='' \<notin> set ''epsilon'' \<and>
   word_loop 0 (CHR 0x00) [] 0 [''--epsilon''] = Finished 1 (CHR 0x00) ''epsilon'' no_argument \<and>
   word_loop 0 (CHR 0x00) [] 0 [''--epsilon[=NUM]'']
     = Finished 1 (CHR 0x00) ''epsilon'' optional_argument \<and>
   word_loop 0 (CHR 0x00) [] 0 [''--epsilon=NUM'']
     = Finished 1 (CHR 0x00) ''epsilon'' required_argument \<and>
   word_loop 0 (CHR 0x00) [] 0 [''--epsilon[=NUM''] = Return False \<and>
   word_loop 0 (CHR 0x00) [] 0 [''--epsilon[=''] = Return False \<and>
   \<not> fst (parseOptLine 0 ''--epsilon[=NUM'' CmdOption_new) \<and>
   m_longOptNames (snd (parseOptLine 0 ''--epsilon[=NUM]'' CmdOption_new)) = [''epsilon''] \<and>
   map lo_has_arg (m_longOptions (snd (parseOptLine 0 ''--epsilon[=NUM]'' CmdOption_new)))
     = [optional_argument]"
  using
    long_option_word_classification
      [where k = 0 and nm = "''epsilon''" and tail = "''NUM]''" and s = "CHR 0x00"
         and l = "[]" and a = 0 and ws = "[]"]
    long_option_word_classification
      [where k = 0 and nm = "''epsilon''" and tail = "''NUM''" and s = "CHR 0x00"
         and l = "[]" and a = 0 and ws = "[]"]
    long_option_word_classification
      [where k = 0 and nm = "''epsilon''" and tail = "[]" and s = "CHR 0x00"
         and l = "[]" and a = 0 and ws = "[]"]
  by (simp add: table_defs)

section \<open>Registering aliases\<close>

lemma register_aliases_fields:
  "m_shortOptStr (register_aliases s l a st) =
     m_shortOptStr st @
       (if s \<noteq> CHR 0x00
        then [s] @ (if a = required_argument \<or> a = optional_argument then '':'' else [])
        else [])"
  "m_longOptNames (register_aliases s l a st) = m_longOptNames st @ (if l \<noteq> [] then [l] else [])"
  "m_longOptions (register_aliases s l a st) =
     m_longOptions st @
       (if l \<noteq> []
        then [\<lparr>lo_name = None, lo_has_arg = a, lo_flag = None, lo_val = s\<rparr>] else [])"
  "m_options (register_aliases s l a st) = m_options st"
  "m_arguments (register_aliases s l a st) = m_arguments st"
  "m_nullStrValue (register_aliases s l a st) = m_nullStrValue st"
  "m_usage (register_aliases s l a st) = m_usage st"
  by (simp_all add: register_aliases_def register_short_def register_long_def Let_def
      split: prod.splits)

lemma register_aliases_indexMap:
  "m_indexMap (register_aliases s l a st) k =
     (if s \<noteq> CHR 0x00 \<and> k = [s] \<and> m_indexMap st [s] = None then Some (m_maxIndex st)
      else if l \<noteq> [] \<and> k = l \<and> m_indexMap st l = None then Some (m_maxIndex st)
      else m_indexMap st k)"
  by (auto simp: register_aliases_def register_short_def register_long_def Let_def
      split: prod.splits)

lemma register_aliases_maxIndex:
  "m_maxIndex (register_aliases s l a st) =
     (if (s \<noteq> CHR 0x00 \<and> m_indexMap st [s] = None) \<or> (l \<noteq> [] \<and> m_indexMap st l = None)
      then m_maxIndex st + 1 else m_maxIndex st)"
  by (auto simp: register_aliases_def register_short_def register_long_def Let_def
      split: prod.splits)

lemma register_aliases_errorStr:
  "m_errorStr (register_aliases s l a st) =
     m_errorStr
       ((if l \<noteq> [] \<and> (m_indexMap st l \<noteq> None \<or> (s \<noteq> CHR 0x00 \<and> l = [s]))
         then addErrorStr (''duplicate long option: '' @ l) else id)
        ((if s \<noteq> CHR 0x00 \<and> m_indexMap st [s] \<noteq> None
          then addErrorStr (''duplicate short option: '' @ [s]) else id) st))"
  by (auto simp: register_aliases_def register_short_def register_long_def Let_def
      addErrorStr_def split: prod.splits)

section \<open>Lines\<close>

lemma word_loop_third: "word_loop 2 s l a ws = Finished (if ws = [] then 2 else 3) s l a"
  by (cases ws) (simp_all add: Let_def)

lemma word_loop_no_words:
  assumes "word_loop 0 (CHR 0x00) [] 0 ws = Finished 0 s l a"
  shows "ws = [] \<and> s = CHR 0x00 \<and> l = []"
proof -
  from word_loop_count [OF _ assms] have "ws = []" by (cases ws) simp_all
  with assms show ?thesis by simp
qed

text \<open>
  C4. When the word loop ends with a short option and no long option, \<open>parseOptLine\<close>
  registers the short option with a required argument exactly when the line has two
  words, and with no argument for every other number of words: the short option string
  gains the character, followed by a colon exactly when the line has two words.
\<close>

theorem short_only_arity:
  assumes "word_loop 0 (CHR 0x00) [] 0 (extract_words line) = Finished n shortOpt longOpt argReqmt0"
    and "shortOpt \<noteq> CHR 0x00" and "longOpt = []"
  shows "parseOptLine i line st =
           (True, register_aliases shortOpt []
              (if length (extract_words line) = 2 then required_argument else no_argument) st) \<and>
         m_shortOptStr (snd (parseOptLine i line st)) =
           m_shortOptStr st @ [shortOpt] @ (if length (extract_words line) = 2 then '':'' else [])"
proof -
  from word_loop_count [OF _ assms(1)] have n: "n = min (length (extract_words line)) 3"
    by simp
  have "n \<noteq> 0"
    using word_loop_no_words [of "extract_words line" shortOpt longOpt argReqmt0] assms(1,2)
    by auto
  moreover from n have "(n = 2) = (length (extract_words line) = 2)" by auto
  ultimately have p: "parseOptLine i line st =
           (True, register_aliases shortOpt []
              (if length (extract_words line) = 2 then required_argument else no_argument) st)"
    using assms by (simp add: parseOptLine_def)
  show ?thesis
    by (simp add: p register_aliases_fields assms(2) required_argument_def no_argument_def
        optional_argument_def)
qed

text \<open>
  The theorem at the lines \<open>-f FILE\<close> (two words), \<open>-c  no long option\<close> (four words)
  and \<open>-v\<close> (one word).
\<close>

theorem short_only_arity_witness:
  "word_loop 0 (CHR 0x00) [] 0 (extract_words ''-f FILE'') = Finished 2 (CHR ''f'') [] 0 \<and>
   CHR ''f'' \<noteq> CHR 0x00 \<and>
   m_shortOptStr (snd (parseOptLine 0 ''-f FILE'' CmdOption_new)) = '':f:'' \<and>
   word_loop 0 (CHR 0x00) [] 0 (extract_words ''-c  no long option'') = Finished 3 (CHR ''c'') [] 0 \<and>
   m_shortOptStr (snd (parseOptLine 0 ''-c  no long option'' CmdOption_new)) = '':c'' \<and>
   word_loop 0 (CHR 0x00) [] 0 (extract_words ''-v'') = Finished 1 (CHR ''v'') [] 0 \<and>
   m_shortOptStr (snd (parseOptLine 0 ''-v'' CmdOption_new)) = '':v''"
proof -
  have f: "word_loop 0 (CHR 0x00) [] 0 (extract_words ''-f FILE'') = Finished 2 (CHR ''f'') [] 0"
    by (simp add: extract_words_def isspace_def)
  have c: "word_loop 0 (CHR 0x00) [] 0 (extract_words ''-c  no long option'')
           = Finished 3 (CHR ''c'') [] 0"
    by (simp add: extract_words_def isspace_def)
  have v: "word_loop 0 (CHR 0x00) [] 0 (extract_words ''-v'') = Finished 1 (CHR ''v'') [] 0"
    by (simp add: extract_words_def isspace_def)
  have lf: "length (extract_words ''-f FILE'') = 2"
    and lc: "length (extract_words ''-c  no long option'') = 4"
    and lv: "length (extract_words ''-v'') = 1"
    by (simp_all add: extract_words_def isspace_def)
  have s0: "m_shortOptStr CmdOption_new = '':''" by (simp add: CmdOption_new_def)
  from short_only_arity [OF f, of 0 CmdOption_new, THEN conjunct2]
    short_only_arity [OF c, of 0 CmdOption_new, THEN conjunct2]
    short_only_arity [OF v, of 0 CmdOption_new, THEN conjunct2] f c v
  show ?thesis by (simp add: lf lc lv s0)
qed

lemma long_word_second:
  assumes "CHR ''='' \<notin> set nm"
  shows "word_loop 1 s l a ((''--'' @ nm) # ws) = word_loop 2 s nm no_argument ws"
proof -
  have "word_loop 1 s l a ((''--'' @ nm) # ws) = word_loop (1 + 1) s nm no_argument ws"
    using assms by (intro long_word_plain) simp_all
  then show ?thesis by (simp only: one_add_one)
qed

lemma short_comma_word:
  assumes "x \<noteq> CHR ''-''"
  shows "word_loop 0 (CHR 0x00) l a ([CHR ''-'', x, CHR '',''] # ws) = word_loop 1 x l a ws"
  using assms by (simp add: Let_def)

text \<open>
  C5 (as amended). The alias index is a map, so an alias has at most one identity. For
  a line whose first two words are \<open>-x,\<close> and \<open>--name\<close>, where \<open>x\<close> is neither the
  character 0 nor a dash and \<open>name\<close> is not empty and has no \<open>=\<close>, processed in a state
  in which neither alias is registered: the line is valid, both aliases get the same new
  identity \<open>m_maxIndex\<close>, the option takes no argument (no colon in the short option
  string, \<open>no_argument\<close> in the descriptor), and no other alias changes.
\<close>

theorem short_long_pair_same_identity:
  assumes "extract_words line = [CHR ''-'', x, CHR '',''] # (''--'' @ name) # rest"
    and "x \<noteq> CHR 0x00" and "x \<noteq> CHR ''-''"
    and "name \<noteq> []" and "CHR ''='' \<notin> set name"
    and "m_indexMap st [x] = None" and "m_indexMap st name = None"
  shows "parseOptLine i line st = (True, register_aliases x name no_argument st) \<and>
         m_indexMap (snd (parseOptLine i line st)) [x] = Some (m_maxIndex st) \<and>
         m_indexMap (snd (parseOptLine i line st)) name = Some (m_maxIndex st) \<and>
         m_maxIndex (snd (parseOptLine i line st)) = m_maxIndex st + 1 \<and>
         m_shortOptStr (snd (parseOptLine i line st)) = m_shortOptStr st @ [x] \<and>
         m_longOptNames (snd (parseOptLine i line st)) = m_longOptNames st @ [name] \<and>
         m_longOptions (snd (parseOptLine i line st)) =
           m_longOptions st @
             [\<lparr>lo_name = None, lo_has_arg = no_argument, lo_flag = None, lo_val = x\<rparr>] \<and>
         (\<forall>k. k \<noteq> [x] \<and> k \<noteq> name \<longrightarrow>
              m_indexMap (snd (parseOptLine i line st)) k = m_indexMap st k)"
proof -
  have "word_loop 0 (CHR 0x00) [] 0 (extract_words line) =
        word_loop 1 x [] 0 ((''--'' @ name) # rest)"
    using assms(1,3) short_comma_word [of x "[]" 0] by simp
  also have "\<dots> = word_loop 2 x name no_argument rest"
    using assms(5) by (rule long_word_second)
  also have "\<dots> = Finished (if rest = [] then 2 else 3) x name no_argument"
    by (rule word_loop_third)
  finally have p: "parseOptLine i line st = (True, register_aliases x name no_argument st)"
    using assms(2,4) by (simp add: parseOptLine_def)
  show ?thesis
    using assms(2,4,6,7)
    by (simp add: p register_aliases_fields register_aliases_indexMap register_aliases_maxIndex
        no_argument_def required_argument_def optional_argument_def)
qed

text \<open>
  The theorem at the line \<open>-a, --all  show all elements\<close> in a new object.
\<close>

theorem short_long_pair_same_identity_witness:
  "extract_words ''-a, --all  show all elements''
     = [CHR ''-'', CHR ''a'', CHR '',''] # (''--'' @ ''all'') # [''show'', ''all'', ''elements''] \<and>
   m_indexMap CmdOption_new ''a'' = None \<and> m_indexMap CmdOption_new ''all'' = None \<and>
   m_indexMap (snd (parseOptLine 0 ''-a, --all  show all elements'' CmdOption_new)) ''a'' = Some 0 \<and>
   m_indexMap (snd (parseOptLine 0 ''-a, --all  show all elements'' CmdOption_new)) ''all'' = Some 0 \<and>
   m_shortOptStr (snd (parseOptLine 0 ''-a, --all  show all elements'' CmdOption_new)) = '':a'' \<and>
   m_maxIndex (snd (parseOptLine 0 ''-a, --all  show all elements'' CmdOption_new)) = 1"
proof -
  have w: "extract_words ''-a, --all  show all elements''
     = [CHR ''-'', CHR ''a'', CHR '',''] # (''--'' @ ''all'') # [''show'', ''all'', ''elements'']"
    by (simp add: extract_words_def isspace_def)
  have m: "m_indexMap CmdOption_new [CHR ''a''] = None" "m_indexMap CmdOption_new ''all'' = None"
    "m_maxIndex CmdOption_new = 0" "m_shortOptStr CmdOption_new = '':''"
    by (simp_all add: CmdOption_new_def)
  from short_long_pair_same_identity [OF w _ _ _ _ m(1,2), of 0, THEN conjunct2] w m
  show ?thesis by simp
qed

text \<open>
  C5 as stated fails. In the usage text with the lines \<open>-a\<close> and \<open>-a, --all\<close> the
  second line is valid (\<open>parseOptLine\<close> returns true), yet \<open>a\<close> keeps the identity 0 of
  the first line while \<open>all\<close> gets the identity 1.
\<close>

theorem colliding_pair_different_identities:
  "fst (parseOptLine 1 ''-a, --all'' (parseLine 0 ''-a'' CmdOption_new)) \<and>
   m_indexMap (operator_shl (''-a'' @ [CHR 0x0A] @ ''-a, --all'') CmdOption_new) ''a'' = Some 0 \<and>
   m_indexMap (operator_shl (''-a'' @ [CHR 0x0A] @ ''-a, --all'') CmdOption_new) ''all'' = Some 1"
  by (simp add: table_defs)

text \<open>
  C6. Let the table \<open>T\<close> built so far be good, and let the next line yield the short
  option \<open>s\<close> and the long option \<open>l\<close>, one of which is registered already (or \<open>l\<close> is
  the one-character name that \<open>s\<close> has just taken). Then the table built from this line
  and any lines after it is not good, it is the table right after this line, every alias
  of \<open>T\<close> keeps its identity, the diagnostic names the duplicate short or long option,
  and when none of the line's aliases is new, \<open>m_maxIndex\<close> is unchanged.
\<close>

theorem duplicate_alias_diagnostic:
  assumes "good T"
    and "word_loop 0 (CHR 0x00) [] 0 (extract_words line) = Finished n s l a0"
    and "(s \<noteq> CHR 0x00 \<and> m_indexMap T [s] \<noteq> None) \<or>
         (l \<noteq> [] \<and> (m_indexMap T l \<noteq> None \<or> (s \<noteq> CHR 0x00 \<and> l = [s])))"
  shows "\<not> good (init_loop i (line # rest) T) \<and>
         init_loop i (line # rest) T = parseLine i line T \<and>
         (\<forall>k v. m_indexMap T k = Some v \<longrightarrow>
                m_indexMap (init_loop i (line # rest) T) k = Some v) \<and>
         (s \<noteq> CHR 0x00 \<and> m_indexMap T [s] \<noteq> None \<longrightarrow>
            (\<exists>q. m_errorStr (init_loop i (line # rest) T) = ''duplicate short option: '' @ [s] @ q)) \<and>
         (l \<noteq> [] \<and> (m_indexMap T l \<noteq> None \<or> (s \<noteq> CHR 0x00 \<and> l = [s])) \<longrightarrow>
            (\<exists>p. m_errorStr (init_loop i (line # rest) T) = p @ ''duplicate long option: '' @ l)) \<and>
         ((s = CHR 0x00 \<or> m_indexMap T [s] \<noteq> None) \<and> (l = [] \<or> m_indexMap T l \<noteq> None) \<longrightarrow>
            m_maxIndex (init_loop i (line # rest) T) = m_maxIndex T)"
proof -
  let ?a = "if l = [] then (if n = 2 then required_argument else no_argument) else a0"
  let ?F = "register_aliases s l ?a T"
  have "n \<noteq> 0"
    using word_loop_no_words [of "extract_words line" s l a0] assms(2,3) by auto
  then have p: "parseOptLine i line T = (True, ?F)"
    using assms(2,3) by (auto simp: parseOptLine_def)
  then have pl: "parseLine i line T = ?F" by (simp add: parseLine_def)
  have e: "m_errorStr T = []" using assms(1) by (simp add: good_def)
  have ng: "\<not> good ?F"
    using assms(3) by (auto simp: good_def register_aliases_errorStr addErrorStr_text e)
  then have il: "init_loop i (line # rest) T = ?F"
    using assms(1) by (simp add: pl init_loop_stops)
  have keep: "\<forall>k v. m_indexMap T k = Some v \<longrightarrow> m_indexMap ?F k = Some v"
    by (auto simp: register_aliases_indexMap)
  have sd: "\<exists>q. m_errorStr ?F = ''duplicate short option: '' @ [s] @ q"
    if "s \<noteq> CHR 0x00 \<and> m_indexMap T [s] \<noteq> None"
    using that by (auto simp: register_aliases_errorStr addErrorStr_text e)
  have ld: "\<exists>p. m_errorStr ?F = p @ ''duplicate long option: '' @ l"
    if "l \<noteq> [] \<and> (m_indexMap T l \<noteq> None \<or> (s \<noteq> CHR 0x00 \<and> l = [s]))"
  proof (cases "s \<noteq> CHR 0x00 \<and> m_indexMap T [s] \<noteq> None")
    case True
    then have "m_errorStr ?F =
        (''duplicate short option: '' @ [s] @ [CHR 0x0A]) @ ''duplicate long option: '' @ l"
      using that by (auto simp: register_aliases_errorStr addErrorStr_text e)
    then show ?thesis by blast
  next
    case False
    then have "m_errorStr ?F = [] @ ''duplicate long option: '' @ l"
      using that assms(3) by (auto simp: register_aliases_errorStr addErrorStr_text e)
    then show ?thesis by blast
  qed
  have mx: "m_maxIndex ?F = m_maxIndex T"
    if "(s = CHR 0x00 \<or> m_indexMap T [s] \<noteq> None) \<and> (l = [] \<or> m_indexMap T l \<noteq> None)"
    using that by (auto simp: register_aliases_maxIndex)
  show ?thesis
    unfolding il
  proof (intro conjI)
    show "?F = parseLine i line T" by (simp only: pl)
  qed (use ng keep sd ld mx in blast)+
qed

text \<open>
  The theorem after the line \<open>-a\<close>, at the line \<open>-a, --other\<close> (followed by a line
  \<open>-b\<close>) and at the line \<open>-b, --a\<close>, whose long name is the short option of the
  first line.
\<close>

theorem duplicate_alias_diagnostic_witness:
  "good (parseLine 0 ''-a'' CmdOption_new) \<and>
   word_loop 0 (CHR 0x00) [] 0 (extract_words ''-a, --other'')
     = Finished 2 (CHR ''a'') ''other'' no_argument \<and>
   word_loop 0 (CHR 0x00) [] 0 (extract_words ''-b, --a'')
     = Finished 2 (CHR ''b'') ''a'' no_argument \<and>
   m_indexMap (parseLine 0 ''-a'' CmdOption_new) ''a'' = Some 0 \<and>
   \<not> good (init_loop 1 [''-a, --other'', ''-b''] (parseLine 0 ''-a'' CmdOption_new)) \<and>
   m_indexMap (init_loop 1 [''-a, --other'', ''-b''] (parseLine 0 ''-a'' CmdOption_new)) ''a''
     = Some 0 \<and>
   (\<exists>q. m_errorStr (init_loop 1 [''-a, --other'', ''-b''] (parseLine 0 ''-a'' CmdOption_new))
         = ''duplicate short option: a'' @ q) \<and>
   \<not> good (init_loop 1 [''-b, --a''] (parseLine 0 ''-a'' CmdOption_new)) \<and>
   m_indexMap (init_loop 1 [''-b, --a''] (parseLine 0 ''-a'' CmdOption_new)) ''a'' = Some 0 \<and>
   (\<exists>p. m_errorStr (init_loop 1 [''-b, --a''] (parseLine 0 ''-a'' CmdOption_new))
         = p @ ''duplicate long option: a'')"
proof -
  let ?T = "parseLine 0 ''-a'' CmdOption_new"
  have g: "good ?T"
    by (simp add: table_defs)
  have w: "word_loop 0 (CHR 0x00) [] 0 (extract_words ''-a, --other'')
     = Finished 2 (CHR ''a'') ''other'' no_argument"
    by (simp add: extract_words_def isspace_def find_first_of_def no_argument_def)
  have w2: "word_loop 0 (CHR 0x00) [] 0 (extract_words ''-b, --a'')
     = Finished 2 (CHR ''b'') ''a'' no_argument"
    by (simp add: extract_words_def isspace_def find_first_of_def no_argument_def)
  have m: "m_indexMap ?T [CHR ''a''] = Some 0"
    by (simp add: table_defs)
  have ne: "CHR ''a'' \<noteq> CHR 0x00" by simp
  from m ne have dup: "(CHR ''a'' \<noteq> CHR 0x00 \<and> m_indexMap ?T [CHR ''a''] \<noteq> None) \<or>
       (''other'' \<noteq> [] \<and> (m_indexMap ?T ''other'' \<noteq> None \<or>
          (CHR ''a'' \<noteq> CHR 0x00 \<and> ''other'' = [CHR ''a''])))"
    by simp
  from m have dup2: "(CHR ''b'' \<noteq> CHR 0x00 \<and> m_indexMap ?T [CHR ''b''] \<noteq> None) \<or>
       (''a'' \<noteq> [] \<and> (m_indexMap ?T ''a'' \<noteq> None \<or>
          (CHR ''b'' \<noteq> CHR 0x00 \<and> ''a'' = [CHR ''b''])))"
    by simp
  note t = duplicate_alias_diagnostic [OF g w dup, of 1 "[''-b'']"]
  note t1 = t [THEN conjunct1]
  note t3 = t [THEN conjunct2, THEN conjunct2, THEN conjunct1]
  note t4 = t [THEN conjunct2, THEN conjunct2, THEN conjunct2, THEN conjunct1]
  note u = duplicate_alias_diagnostic [OF g w2 dup2, of 1 "[]"]
  note u1 = u [THEN conjunct1]
  note u3 = u [THEN conjunct2, THEN conjunct2, THEN conjunct1]
  note u5 = u [THEN conjunct2, THEN conjunct2, THEN conjunct2, THEN conjunct2, THEN conjunct1]
  from t1 t3 t4 u1 u3 u5 g w w2 m ne
  show ?thesis by (simp del: init_loop.simps)
qed

lemma two_dashes:
  assumes "take 2 w = ''--''"
  shows "2 \<le> length w" "w ! 0 = CHR ''-''" "w ! 1 = CHR ''-''"
proof -
  from assms obtain t where "w = CHR ''-'' # CHR ''-'' # t"
    by (cases w; cases "tl w") auto
  then show "2 \<le> length w" "w ! 0 = CHR ''-''" "w ! 1 = CHR ''-''" by simp_all
qed

lemma long_word_independent:
  assumes "n0 < 2" "take 2 w = ''--''"
  shows "word_loop n0 s l a (w # ws) =
     (case word_loop n0 s l' a' [w] of
        Return b \<Rightarrow> Return b
      | Finished k s' nm ar \<Rightarrow> word_loop (n0 + 1) s nm ar ws)"
  unfolding word_loop_long [OF assms(1) two_dashes [OF assms(2)]]
  by (simp split: option.split)

text \<open>
  C10 (as amended). Let the first two words of a line begin with \<open>--\<close>, let the loop
  body accept the first one, and let it give, for the second one, the name \<open>name2\<close>,
  not empty, and the argument requirement \<open>arity2\<close>. Then the line is valid and its
  effect is that of registering the long option \<open>name2\<close> with \<open>arity2\<close> alone: the name
  and descriptor lists gain this one entry, the short option string is unchanged, the
  first name is not registered, and the only diagnostic possible is the one for
  \<open>name2\<close> being a duplicate.
\<close>

theorem second_long_option_wins:
  assumes "extract_words line = w1 # w2 # rest"
    and "take 2 w1 = ''--''" and "take 2 w2 = ''--''"
    and "word_loop 0 (CHR 0x00) [] 0 [w1] = Finished k1 s1 name1 arity1"
    and "word_loop 1 (CHR 0x00) [] 0 [w2] = Finished k2 s2 name2 arity2"
    and "name2 \<noteq> []"
  shows "parseOptLine i line st = (True, register_aliases (CHR 0x00) name2 arity2 st) \<and>
         m_longOptNames (snd (parseOptLine i line st)) = m_longOptNames st @ [name2] \<and>
         m_longOptions (snd (parseOptLine i line st)) =
           m_longOptions st @
             [\<lparr>lo_name = None, lo_has_arg = arity2, lo_flag = None, lo_val = CHR 0x00\<rparr>] \<and>
         m_shortOptStr (snd (parseOptLine i line st)) = m_shortOptStr st \<and>
         (name1 \<noteq> name2 \<longrightarrow>
            m_indexMap (snd (parseOptLine i line st)) name1 = m_indexMap st name1) \<and>
         m_indexMap (snd (parseOptLine i line st)) name2 =
           (if m_indexMap st name2 = None then Some (m_maxIndex st) else m_indexMap st name2) \<and>
         m_errorStr (snd (parseOptLine i line st)) =
           (if m_indexMap st name2 = None then m_errorStr st
            else m_errorStr (addErrorStr (''duplicate long option: '' @ name2) st))"
proof -
  have first: "word_loop 0 (CHR 0x00) [] 0 (w1 # w2 # rest) =
               word_loop (0 + 1) (CHR 0x00) name1 arity1 (w2 # rest)"
    using long_word_independent [of 0 w1 "CHR 0x00" "[]" 0 "w2 # rest" "[]" 0] assms(2,4)
    by simp
  have second: "word_loop 1 (CHR 0x00) name1 arity1 (w2 # rest) =
               word_loop (1 + 1) (CHR 0x00) name2 arity2 rest"
    using long_word_independent [of 1 w2 "CHR 0x00" name1 arity1 rest "[]" 0] assms(3,5)
    by simp
  have "word_loop 0 (CHR 0x00) [] 0 (extract_words line) =
        word_loop 2 (CHR 0x00) name2 arity2 rest"
    using first second by (simp add: assms(1) numeral_2_eq_2 del: word_loop.simps)
  also have "\<dots> = Finished (if rest = [] then 2 else 3) (CHR 0x00) name2 arity2"
    by (rule word_loop_third)
  finally have p: "parseOptLine i line st = (True, register_aliases (CHR 0x00) name2 arity2 st)"
    using assms(6) by (simp add: parseOptLine_def)
  show ?thesis
    using assms(6)
    by (simp add: p register_aliases_fields register_aliases_indexMap register_aliases_errorStr)
qed

text \<open>
  The theorem at the line \<open>--alpha --beta=X\<close> in a new object.
\<close>

theorem second_long_option_wins_witness:
  "extract_words ''--alpha --beta=X'' = [''--alpha'', ''--beta=X''] \<and>
   take 2 ''--alpha'' = ''--'' \<and> take 2 ''--beta=X'' = ''--'' \<and>
   word_loop 0 (CHR 0x00) [] 0 [''--alpha''] = Finished 1 (CHR 0x00) ''alpha'' no_argument \<and>
   word_loop 1 (CHR 0x00) [] 0 [''--beta=X''] = Finished 2 (CHR 0x00) ''beta'' required_argument \<and>
   m_longOptNames (snd (parseOptLine 0 ''--alpha --beta=X'' CmdOption_new)) = [''beta''] \<and>
   m_indexMap (snd (parseOptLine 0 ''--alpha --beta=X'' CmdOption_new)) ''alpha'' = None \<and>
   m_indexMap (snd (parseOptLine 0 ''--alpha --beta=X'' CmdOption_new)) ''beta'' = Some 0 \<and>
   m_errorStr (snd (parseOptLine 0 ''--alpha --beta=X'' CmdOption_new)) = []"
proof -
  have w: "extract_words ''--alpha --beta=X'' = [''--alpha'', ''--beta=X'']"
    by (simp add: extract_words_def isspace_def)
  have a: "word_loop 0 (CHR 0x00) [] 0 [''--alpha''] = Finished 1 (CHR 0x00) ''alpha'' no_argument"
    by (simp add: find_first_of_def)
  have b: "word_loop 1 (CHR 0x00) [] 0 [''--beta=X'']
           = Finished 2 (CHR 0x00) ''beta'' required_argument"
    by (simp add: find_first_of_def substr_def)
  have m: "m_indexMap CmdOption_new = Map.empty" "m_longOptNames CmdOption_new = []"
    "m_errorStr CmdOption_new = []" "m_maxIndex CmdOption_new = 0"
    by (simp_all add: CmdOption_new_def)
  from second_long_option_wins [OF w _ _ a b, of 0 CmdOption_new, THEN conjunct2] w a b
  show ?thesis by (simp add: m)
qed

text \<open>
  C10 as stated fails. The two words of the line \<open>--alpha --\<close> both begin with \<open>--\<close>
  and both take the branch for long options, but the second leaves the name empty: the
  line is invalid, a diagnostic is recorded and nothing is registered.
\<close>

theorem empty_second_long_option_invalid:
  "extract_words ''--alpha --'' = [''--alpha'', ''--''] \<and>
   \<not> fst (parseOptLine 0 ''--alpha --'' CmdOption_new) \<and>
   m_errorStr (operator_shl ''--alpha --'' CmdOption_new)
     = ''invalid option at line: 0'' @ [CHR 0x0A] @ ''--alpha --'' \<and>
   m_longOptNames (operator_shl ''--alpha --'' CmdOption_new) = [] \<and>
   m_indexMap (operator_shl ''--alpha --'' CmdOption_new) ''alpha'' = None"
  by (simp add: table_defs)

section \<open>Dispatch\<close>

lemma collect_rest_fold:
  "collect_rest argv i sv = (max i (length argv), fold add (drop i argv) sv)"
proof (induction argv i sv rule: collect_rest.induct)
  case (1 argv i sv)
  show ?case
  proof (cases "i < length argv")
    case True
    then have "drop i argv = argv ! i # drop (Suc i) argv"
      by (simp add: Cons_nth_drop_Suc)
    with True 1 show ?thesis by (subst collect_rest.simps) (simp add: max_def)
  next
    case False
    then show ?thesis by (subst collect_rest.simps) (simp add: max_def)
  qed
qed

lemma record_occurrence_fields [simp]:
  "m_usage (record_occurrence i a st) = m_usage st"
  "m_errorStr (record_occurrence i a st) = m_errorStr st"
  "m_shortOptStr (record_occurrence i a st) = m_shortOptStr st"
  "m_longOptions (record_occurrence i a st) = m_longOptions st"
  "m_longOptNames (record_occurrence i a st) = m_longOptNames st"
  "m_maxIndex (record_occurrence i a st) = m_maxIndex st"
  "m_indexMap (record_occurrence i a st) = m_indexMap st"
  "m_arguments (record_occurrence i a st) = m_arguments st"
  "m_nullStrValue (record_occurrence i a st) = m_nullStrValue st"
  by (simp_all add: record_occurrence_def)

text \<open>
  A relation that holds across every update the scan loop makes, and is reflexive and
  transitive, holds between the state before the loop and the state it returns.
\<close>

lemma parse_loop_rel:
  assumes run: "parse_loop gl st argv g = Some (Inr (st', argv', g'))"
    and refl: "\<And>s. R s s"
    and trans: "\<And>a b c. R a b \<Longrightarrow> R b c \<Longrightarrow> R a c"
    and err: "\<And>s msg. R s (addErrorStr msg s)"
    and occ: "\<And>s i a. R s (record_occurrence i a s)"
    and ins: "\<And>s nm. m_indexMap s nm = None \<Longrightarrow> R s (s\<lparr>m_indexMap := (m_indexMap s)(nm \<mapsto> 0)\<rparr>)"
  shows "R st st'"
proof -
  have "\<forall>st' argv' g'. r = Inr (st', argv', g') \<longrightarrow> R st st'"
    if "parse_loop gl st argv g = Some r" for r
  proof (induction gl st argv g r rule: parse_loop.raw_induct)
    case (1 loop gl st argv g r)
    note IH = "1.IH"
    note body = "1.hyps"
    obtain c oi argv1 g1
      where sc: "gl argv (m_shortOptStr st) (m_longOptions st) g = (c, oi, argv1, g1)"
      by (cases "gl argv (m_shortOptStr st) (m_longOptions st) g") auto
    have step: "R st st'"
      if "loop gl s1 argv1 g1 = Some r" "r = Inr (st', argv', g')" "R st s1" for s1 st' argv' g'
      using trans [OF that(3)] IH [OF that(1)] that(2) by blast
    show ?case
    proof (cases "m_longOptions st = []")
      case True
      with body show ?thesis by auto
    next
      case ne: False
      show ?thesis
      proof (cases "c < 0")
        case True
        with body sc ne show ?thesis by (auto simp: refl)
      next
        case nneg: False
        show ?thesis
        proof (cases "c = 0")
          case True
          show ?thesis
          proof (cases "m_indexMap st (m_longOptNames st ! oi)")
            case None
            have "R st (record_occurrence 0 (optarg g1)
                    (st\<lparr>m_indexMap := (m_indexMap st)(m_longOptNames st ! oi \<mapsto> 0)\<rparr>))"
              by (rule trans [OF ins [OF None] occ])
            with body sc ne True None show ?thesis
              by (auto simp: Let_def split: if_splits intro: step)
          next
            case (Some x)
            with body sc ne True show ?thesis
              by (auto simp: Let_def split: if_splits intro: step occ)
          qed
        next
          case nz: False
          show ?thesis
          proof (cases "c = of_char (CHR ''?'') \<or> c = of_char (CHR '':'')")
            case True
            with body sc ne nneg nz show ?thesis
              by (auto simp: Let_def split: if_splits intro: step err)
          next
            case False
            with body sc ne nneg nz show ?thesis
              by (auto simp: Let_def split: if_splits option.splits intro: step occ err refl)
          qed
        qed
      qed
    qed
  qed (fact that)
  with run show ?thesis by blast
qed

lemma parse_loop_frame:
  assumes "parse_loop gl st argv g = Some (Inr (st', argv', g'))"
  shows "m_arguments st' = m_arguments st \<and> m_nullStrValue st' = m_nullStrValue st \<and>
         m_shortOptStr st' = m_shortOptStr st \<and> m_longOptions st' = m_longOptions st \<and>
         m_longOptNames st' = m_longOptNames st \<and> m_usage st' = m_usage st \<and>
         m_maxIndex st' = m_maxIndex st"
  by (rule parse_loop_rel [OF assms]) simp_all

lemma parse_loop_errors_grow:
  assumes "parse_loop gl st argv g = Some (Inr (st', argv', g'))"
  shows "\<exists>rest. m_errorStr st' = m_errorStr st @ rest"
proof (rule parse_loop_rel [OF assms])
  show "\<exists>rest. m_errorStr (addErrorStr msg s) = m_errorStr s @ rest" for s msg
    by (simp add: addErrorStr_def)
next
  show "\<exists>rest. m_errorStr s = m_errorStr s @ rest" for s
    by simp
next
  fix a b c :: CmdOption
  assume "\<exists>rest. m_errorStr b = m_errorStr a @ rest" "\<exists>rest. m_errorStr c = m_errorStr b @ rest"
  then obtain r1 r2 where "m_errorStr b = m_errorStr a @ r1" "m_errorStr c = m_errorStr b @ r2"
    by blast
  then have "m_errorStr c = m_errorStr a @ (r1 @ r2)" by simp
  then show "\<exists>rest. m_errorStr c = m_errorStr a @ rest" ..
next
  show "\<exists>rest. m_errorStr (record_occurrence i a s) = m_errorStr s @ rest" for s i a
    by simp
next
  show "\<exists>rest. m_errorStr (s\<lparr>m_indexMap := (m_indexMap s)(nm \<mapsto> 0)\<rparr>) = m_errorStr s @ rest"
    for s nm
    by simp
qed

lemma fold_add_count: "m_count (fold add xs sv) = m_count sv + int (length xs)"
  by (induction xs arbitrary: sv) (simp_all add: add_def)

text \<open>Every value collection the scan loop leaves holds at least one string.\<close>

lemma add_count: "m_count (add x sv) = m_count sv + 1"
  by (simp add: add_def)

lemma record_occurrence_lookup:
  "m_options (record_occurrence j a s) i =
     (if i = j
      then Some (add (case a of Some x \<Rightarrow> x | None \<Rightarrow> [])
                  (case m_options s j of Some sv \<Rightarrow> sv | None \<Rightarrow> StringValue_default))
      else m_options s i)"
  by (simp add: record_occurrence_def)

lemma record_occurrence_counted:
  assumes inv: "\<forall>i sv. m_options s i = Some sv \<longrightarrow> 0 < m_count sv"
    and look: "m_options (record_occurrence j a s) i = Some sv"
  shows "0 < m_count sv"
proof (cases "i = j")
  case True
  let ?base = "case m_options s j of Some sv \<Rightarrow> sv | None \<Rightarrow> StringValue_default"
  have "0 \<le> m_count ?base"
  proof (cases "m_options s j")
    case None
    then show ?thesis by (simp add: StringValue_default_def)
  next
    case (Some sv0)
    with inv have "0 < m_count sv0" by blast
    with Some show ?thesis by simp
  qed
  moreover from look True
  have "sv = add (case a of Some x \<Rightarrow> x | None \<Rightarrow> []) ?base"
    by (simp add: record_occurrence_lookup)
  ultimately show ?thesis by (simp add: add_count)
next
  case False
  with look have "m_options s i = Some sv" by (simp add: record_occurrence_lookup)
  with inv show ?thesis by blast
qed

lemma parse_loop_options_counted:
  assumes "parse_loop gl st argv g = Some (Inr (st', argv', g'))"
    and "\<forall>i sv. m_options st i = Some sv \<longrightarrow> 0 < m_count sv"
  shows "\<forall>i sv. m_options st' i = Some sv \<longrightarrow> 0 < m_count sv"
proof -
  let ?inv = "\<lambda>s. \<forall>i sv. m_options s i = Some sv \<longrightarrow> 0 < m_count sv"
  have "?inv st \<longrightarrow> ?inv st'"
  proof (rule parse_loop_rel [OF assms(1)])
    show "?inv s \<longrightarrow> ?inv s" for s by (rule impI)
  next
    show "?inv a \<longrightarrow> ?inv c" if "?inv a \<longrightarrow> ?inv b" "?inv b \<longrightarrow> ?inv c" for a b c :: CmdOption
      using that by (rule_tac impI) (erule (1) impE [OF _ _], blast)
  next
    show "?inv s \<longrightarrow> ?inv (addErrorStr msg s)" for s msg
      by (simp only: addErrorStr_fields) (rule impI)
  next
    show "?inv s \<longrightarrow> ?inv (record_occurrence j a s)" for s j a
    proof
      assume "?inv s"
      then show "?inv (record_occurrence j a s)"
        using record_occurrence_counted [of s j a] by blast
    qed
  next
    fix s :: CmdOption and nm :: string
    have eq: "m_options (s\<lparr>m_indexMap := (m_indexMap s)(nm \<mapsto> 0)\<rparr>) = m_options s"
      by simp
    show "?inv s \<longrightarrow> ?inv (s\<lparr>m_indexMap := (m_indexMap s)(nm \<mapsto> 0)\<rparr>)"
      unfolding eq by (rule impI)
  qed
  with assms(2) show ?thesis by (rule_tac mp)
qed

lemma parse_unfold:
  assumes "parse gl argv st g = Some (Inr (st', argv', g'))"
  shows "\<exists>st1 g1. parse_loop gl st argv (g\<lparr>opterr := 0\<rparr>) = Some (Inr (st1, argv', g1)) \<and>
           st' = st1\<lparr>m_arguments := fold add (drop (optind g1) argv') (m_arguments st1)\<rparr> \<and>
           g' = g1\<lparr>optind := 0\<rparr>"
proof (cases "parse_loop gl st argv (g\<lparr>opterr := 0\<rparr>)")
  case None
  with assms show ?thesis by (simp add: parse_def)
next
  case (Some r)
  show ?thesis
  proof (cases r)
    case (Inl u)
    with Some assms show ?thesis by (simp add: parse_def)
  next
    case (Inr t)
    obtain st1 argv1 g1 where t: "t = (st1, argv1, g1)" by (cases t) auto
    from assms Some Inr t show ?thesis
      by (auto simp: parse_def collect_rest_fold)
  qed
qed

section \<open>Running the dispatcher on the scanner model\<close>

lemma of_char_int_nonneg: "\<not> (of_char c :: int) < 0"
proof -
  have "(of_char c :: int) = int (of_char c)" by (simp only: of_nat_of_char)
  then show ?thesis by simp
qed

lemma of_char_int_eq_0: "((of_char c :: int) = 0) = (c = CHR 0x00)"
proof -
  have "(of_char (CHR 0x00) :: int) = 0" by simp
  then have "((of_char c :: int) = 0) = ((of_char c :: int) = of_char (CHR 0x00))" by simp
  then show ?thesis by (simp only: of_char_eq_iff)
qed

text \<open>
  The definitions that evaluating the dispatcher on the scanner model unfolds.
\<close>

lemmas dispatch_defs =
  parse_def parse_loop.simps collect_rest_fold getopt_long_model_def getopt_initial_def
  short_step_def long_step_def missing_signal_def record_occurrence_def add_def
  of_char_int_nonneg of_char_int_eq_0

section \<open>The accessor\<close>

lemma operator_shl_nullStrValue: "m_nullStrValue (operator_shl usage st) = m_nullStrValue st"
proof -
  have line: "m_nullStrValue (parseLine i l s) = m_nullStrValue s" for i l s
    by (simp add: parseLine_def parseOptLine_def register_aliases_fields Let_def
        split: loop_exit.splits prod.splits)
  have loop: "m_nullStrValue (init_loop i ls s) = m_nullStrValue s" for i ls s
    by (induction ls arbitrary: i s) (simp_all add: line)
  show ?thesis by (simp add: operator_shl_def init_def Let_def loop)
qed

lemma parse_nullStrValue:
  assumes "parse gl argv st g = Some (Inr (st', argv', g'))"
  shows "m_nullStrValue st' = m_nullStrValue st"
proof -
  from parse_unfold [OF assms] obtain st1 g1
    where loop: "parse_loop gl st argv (g\<lparr>opterr := 0\<rparr>) = Some (Inr (st1, argv', g1))"
      and st': "st' = st1\<lparr>m_arguments := fold add (drop (optind g1) argv') (m_arguments st1)\<rparr>"
    by blast
  from parse_loop_frame [OF loop] show ?thesis by (simp add: st')
qed

lemma parse_options_counted:
  assumes "parse gl argv st g = Some (Inr (st', argv', g'))"
    and "\<forall>i sv. m_options st i = Some sv \<longrightarrow> 0 < m_count sv"
  shows "\<forall>i sv. m_options st' i = Some sv \<longrightarrow> 0 < m_count sv"
proof -
  from parse_unfold [OF assms(1)] obtain st1 g1
    where loop: "parse_loop gl st argv (g\<lparr>opterr := 0\<rparr>) = Some (Inr (st1, argv', g1))"
      and st': "st' = st1\<lparr>m_arguments := fold add (drop (optind g1) argv') (m_arguments st1)\<rparr>"
    by blast
  have "m_options st' = m_options st1" by (simp add: st')
  with parse_loop_options_counted [OF loop assms(2)] show ?thesis by simp
qed

lemma operator_shl_options: "m_options (operator_shl usage st) = m_options st"
proof -
  have line: "m_options (parseLine i l s) = m_options s" for i l s
    by (simp add: parseLine_def parseOptLine_def register_aliases_fields Let_def
        split: loop_exit.splits prod.splits)
  have loop: "m_options (init_loop i ls s) = m_options s" for i ls s
    by (induction ls arbitrary: i s) (simp_all add: line)
  show ?thesis by (simp add: operator_shl_def init_def Let_def loop)
qed

text \<open>
  C9. Let \<open>st\<close> be the state that \<open>parse\<close> returns for an object that was new when
  it got its usage text. For a string that is not a registered alias, \<open>operator[]\<close>
  throws \<open>invalid_argument\<close> with the text \<open>unknown option: \<close> and the string. For a
  registered alias whose identity has no recorded occurrence, it returns a value with
  count 0, which converts to false and whose \<open>as\<close> throws \<open>invalid_argument\<close> with
  the text \<open>null value\<close>, for every conversion. For a registered alias with recorded
  occurrences it returns their collection, whose count is positive: the count is 0
  only when nothing was recorded.
\<close>

theorem operator_index_unknown_or_absent:
  assumes "parse gl argv (operator_shl usage CmdOption_new) g = Some (Inr (st, argv', g'))"
  shows "(m_indexMap st opt = None \<longrightarrow>
            operator_index opt st = Inl (invalid_argument (''unknown option: '' @ opt))) \<and>
         (m_indexMap st opt = Some i \<and> m_options st i = None \<longrightarrow>
            (\<exists>sv. operator_index opt st = Inr sv \<and> count sv = 0 \<and> \<not> operator_bool sv \<and>
                  as getValue sv = Inl (invalid_argument ''null value''))) \<and>
         (m_indexMap st opt = Some i \<and> m_options st i = Some sv \<longrightarrow>
            operator_index opt st = Inr sv \<and> 0 < count sv \<and> operator_bool sv)"
proof -
  have "m_nullStrValue st = StringValue_default"
    using parse_nullStrValue [OF assms]
    by (simp add: operator_shl_nullStrValue CmdOption_new_def)
  then have null: "m_count (m_nullStrValue st) = 0"
    by (simp add: StringValue_default_def)
  have "\<forall>i sv. m_options (operator_shl usage CmdOption_new) i = Some sv \<longrightarrow> 0 < m_count sv"
    by (simp add: operator_shl_options CmdOption_new_def)
  from parse_options_counted [OF assms this]
  have counted: "\<forall>i sv. m_options st i = Some sv \<longrightarrow> 0 < m_count sv" .
  have a: "operator_index opt st = Inl (invalid_argument (''unknown option: '' @ opt))"
    if "m_indexMap st opt = None"
    using that by (simp add: operator_index_def)
  have b: "\<exists>sv. operator_index opt st = Inr sv \<and> count sv = 0 \<and> \<not> operator_bool sv \<and>
                  as getValue sv = Inl (invalid_argument ''null value'')"
    if "m_indexMap st opt = Some i \<and> m_options st i = None"
    using that null
    by (simp add: operator_index_def count_def operator_bool_def as_def validate_def)
  have c: "operator_index opt st = Inr sv \<and> 0 < count sv \<and> operator_bool sv"
    if "m_indexMap st opt = Some i \<and> m_options st i = Some sv"
  proof -
    from that counted have "0 < m_count sv" by blast
    with that show ?thesis by (simp add: operator_index_def count_def operator_bool_def)
  qed
  from a b c show ?thesis by blast
qed

text \<open>
  The theorem after the usage text with the lines \<open>-a\<close> and \<open>-b\<close> and the arguments
  \<open>prog -a x\<close>, at the strings \<open>z\<close>, \<open>b\<close> and \<open>a\<close>.
\<close>

theorem operator_index_unknown_or_absent_witness:
  "\<exists>st av g'.
     parse getopt_long_model [''prog'', ''-a'', ''x''] (operator_shl (''-a'' @ [CHR 0x0A] @ ''-b'') CmdOption_new)
       getopt_initial = Some (Inr (st, av, g')) \<and>
     m_indexMap st ''z'' = None \<and>
     operator_index ''z'' st = Inl (invalid_argument ''unknown option: z'') \<and>
     m_indexMap st ''b'' = Some 1 \<and> m_options st 1 = None \<and>
     (\<exists>sv. operator_index ''b'' st = Inr sv \<and> count sv = 0 \<and> \<not> operator_bool sv \<and>
           as getValue_string sv = Inl (invalid_argument ''null value'')) \<and>
     m_indexMap st ''a'' = Some 0 \<and> m_options st 0 = Some \<lparr>m_text = [], m_count = 1\<rparr> \<and>
     operator_index ''a'' st = Inr \<lparr>m_text = [], m_count = 1\<rparr>"
proof -
  have "\<exists>st av g'.
     parse getopt_long_model [''prog'', ''-a'', ''x''] (operator_shl (''-a'' @ [CHR 0x0A] @ ''-b'') CmdOption_new)
       getopt_initial = Some (Inr (st, av, g')) \<and>
     m_indexMap st ''z'' = None \<and> m_indexMap st ''b'' = Some 1 \<and> m_options st 1 = None \<and>
     m_indexMap st ''a'' = Some 0 \<and> m_options st 0 = Some \<lparr>m_text = [], m_count = 1\<rparr>"
    by (simp add: table_defs dispatch_defs del: of_char_Char)
  then obtain st av g'
    where run: "parse getopt_long_model [''prog'', ''-a'', ''x'']
        (operator_shl (''-a'' @ [CHR 0x0A] @ ''-b'') CmdOption_new) getopt_initial
        = Some (Inr (st, av, g'))"
      and f: "m_indexMap st ''z'' = None" "m_indexMap st ''b'' = Some 1" "m_options st 1 = None"
        "m_indexMap st ''a'' = Some 0" "m_options st 0 = Some \<lparr>m_text = [], m_count = 1\<rparr>"
    by blast
  note t1 = operator_index_unknown_or_absent [OF run, of "''z''" 1 getValue_string]
  note t2 = operator_index_unknown_or_absent [OF run, of "''b''" 1 getValue_string]
  note t3 = operator_index_unknown_or_absent
              [OF run, of "''a''" 0 _ "\<lparr>m_text = [], m_count = 1\<rparr>"]
  from t1 f have z: "operator_index ''z'' st = Inl (invalid_argument ''unknown option: z'')"
    by simp
  from t2 f have b: "\<exists>sv. operator_index ''b'' st = Inr sv \<and> count sv = 0 \<and> \<not> operator_bool sv \<and>
           as getValue_string sv = Inl (invalid_argument ''null value'')"
    by simp
  from t3 f have a: "operator_index ''a'' st = Inr \<lparr>m_text = [], m_count = 1\<rparr>"
    by simp
  from z b a run f show ?thesis by blast
qed

section \<open>The scanner model reads every token once\<close>

lemma unread_drop:
  assumes "i < length argv"
  shows "sum_list (map (\<lambda>a. length a + 1) (drop i argv)) =
         length (argv ! i) + 1 + sum_list (map (\<lambda>a. length a + 1) (drop (Suc i) argv))"
proof -
  from assms have "drop i argv = argv ! i # drop (Suc i) argv"
    by (simp add: Cons_nth_drop_Suc)
  then show ?thesis by simp
qed

lemma unread_mono:
  "sum_list (map (\<lambda>a. length a + 1) (drop (Suc i) argv))
     \<le> sum_list (map (\<lambda>a. length a + 1) (drop i argv))"
proof (cases "i < length argv")
  case True
  from unread_drop [OF True] show ?thesis by simp
next
  case False
  then show ?thesis by simp
qed

lemma short_step_unread:
  assumes "short_step argv s g = (c, oi, argv', g')" and "0 \<le> c" and "optind g \<noteq> 0"
  shows "argv' = argv \<and> optind g' \<noteq> 0 \<and> unread argv g' < unread argv g"
proof -
  from assms(1,2) have i: "optind g < length argv" and n: "nextchar g < length (argv ! optind g)"
    by (auto simp: short_step_def split: if_splits)
  note d = unread_drop [OF i]
  note m = unread_mono [of "Suc (optind g)" argv]
  from assms i n d m show ?thesis
    by (auto simp: short_step_def unread_def Let_def split: if_splits option.splits)
qed

lemma long_step_unread:
  assumes "long_step argv s l g a = (c, oi, argv', g')" and "optind g \<noteq> 0"
    and "optind g < length argv" and "nextchar g = 0"
  shows "argv' = argv \<and> optind g' \<noteq> 0 \<and> unread argv g' < unread argv g"
proof -
  note d = unread_drop [OF assms(3)]
  note m = unread_mono [of "Suc (optind g)" argv]
  from assms d m show ?thesis
    by (auto simp: long_step_def unread_def Let_def split: if_splits option.splits prod.splits)
qed

lemma getopt_long_model_unread:
  assumes "getopt_long_model argv s l g = (c, oi, argv', g')" and "0 \<le> c"
  shows "argv' = argv \<and> optind g' \<noteq> 0 \<and> unread argv g' < unread argv g"
proof -
  let ?g0 = "(if optind g = 0 then getopt_initial\<lparr>opterr := opterr g\<rparr> else g)\<lparr>optarg := None\<rparr>"
  have o: "optind ?g0 \<noteq> 0" by (simp add: getopt_initial_def)
  have u: "unread argv ?g0 = unread argv g"
    by (simp add: unread_def getopt_initial_def)
  show ?thesis
  proof (cases "nextchar ?g0 = 0")
    case False
    with assms(1) have "short_step argv s ?g0 = (c, oi, argv', g')"
      by (simp add: getopt_long_model_def Let_def)
    from short_step_unread [OF this assms(2) o] u show ?thesis by simp
  next
    case True
    from assms True have i: "optind ?g0 < length argv"
      by (auto simp: getopt_long_model_def Let_def split: if_splits)
    let ?a = "argv ! optind ?g0"
    from assms True i have len: "2 \<le> length ?a" and ne: "?a \<noteq> ''--''"
      by (auto simp: getopt_long_model_def Let_def split: if_splits)
    show ?thesis
    proof (cases "?a ! 1 = CHR ''-''")
      case dash: True
      with assms True i len ne have "long_step argv s l ?g0 ?a = (c, oi, argv', g')"
        by (auto simp: getopt_long_model_def Let_def split: if_splits)
      from long_step_unread [OF this o i True] u show ?thesis by simp
    next
      case False
      with assms True i len ne
      have st: "short_step argv s (?g0\<lparr>nextchar := 1\<rparr>) = (c, oi, argv', g')"
        by (auto simp: getopt_long_model_def Let_def split: if_splits)
      have "optind (?g0\<lparr>nextchar := 1\<rparr>) \<noteq> 0" using o by simp
      from short_step_unread [OF st assms(2) this]
      have "argv' = argv \<and> optind g' \<noteq> 0 \<and> unread argv g' < unread argv (?g0\<lparr>nextchar := 1\<rparr>)" .
      moreover have "unread argv (?g0\<lparr>nextchar := 1\<rparr>) \<le> unread argv ?g0"
        using o True by (simp add: unread_def)
      ultimately show ?thesis using u by simp
    qed
  qed
qed

text \<open>With the scanner model the scan loop returns for every table and argument list.\<close>

lemma parse_loop_model_total: "\<exists>r. parse_loop getopt_long_model st argv g = Some r"
proof (induction "unread argv g" arbitrary: st g rule: less_induct)
  case less
  obtain c oi argv1 g1
    where sc: "getopt_long_model argv (m_shortOptStr st) (m_longOptions st) g = (c, oi, argv1, g1)"
    by (cases "getopt_long_model argv (m_shortOptStr st) (m_longOptions st) g") auto
  show ?case
  proof (cases "m_longOptions st = [] \<or> c < 0")
    case True
    with sc show ?thesis by (subst parse_loop.simps) auto
  next
    case False
    then have "0 \<le> c" by simp
    from getopt_long_model_unread [OF sc this]
    have av: "argv1 = argv" and lt: "unread argv g1 < unread argv g" by simp_all
    have IH: "\<exists>r. parse_loop getopt_long_model s argv1 g1 = Some r" for s
      using less [OF lt] av by simp
    from False sc show ?thesis
      by (subst parse_loop.simps) (auto simp: Let_def IH split: option.splits)
  qed
qed

lemma parse_model_total: "\<exists>r. parse getopt_long_model argv st g = Some r"
proof -
  obtain r where r: "parse_loop getopt_long_model st argv (g\<lparr>opterr := 0\<rparr>) = Some r"
    using parse_loop_model_total by blast
  show ?thesis
  proof (cases r)
    case (Inl u)
    with r show ?thesis by (simp add: parse_def)
  next
    case (Inr t)
    obtain st1 argv1 g1 where "t = (st1, argv1, g1)" by (cases t) auto
    with r Inr show ?thesis by (simp add: parse_def collect_rest_fold)
  qed
qed

section \<open>Unknown options\<close>

lemma parse_loop_unknown:
  assumes "m_longOptions st \<noteq> []"
    and "gl argv (m_shortOptStr st) (m_longOptions st) g = (of_char (CHR ''?''), oi, argv1, g1)"
  shows "parse_loop gl st argv g =
         parse_loop gl (addErrorStr (''Unknown option: '' @ [char_of (optopt g1)]) st) argv1 g1"
  using assms by (subst parse_loop.simps) simp

text \<open>
  C7. Let the scanner, called in any state of the scan loop, signal an unknown
  option. Then the loop goes on from the scanner's next state with the diagnostic
  \<open>Unknown option: \<close> and the character of \<open>optopt\<close> appended. Whenever the loop then
  returns, the state is not good, its diagnostics begin with those up to and including
  this one, and collecting the rest adds the tokens from the final cursor on, in order,
  to the positional arguments held before. When the signal comes at the first call of
  \<open>parse\<close>, what \<open>parse\<close> returns is not good and its positional arguments are those
  held before followed by the tokens from the final cursor on.
\<close>

theorem unknown_option_is_not_fatal:
  assumes "m_longOptions st \<noteq> []"
    and "gl argv (m_shortOptStr st) (m_longOptions st) g = (of_char (CHR ''?''), oi, argv1, g1)"
  shows "parse_loop gl st argv g =
           parse_loop gl (addErrorStr (''Unknown option: '' @ [char_of (optopt g1)]) st) argv1 g1 \<and>
         (\<forall>st' argv' g'. parse_loop gl st argv g = Some (Inr (st', argv', g')) \<longrightarrow>
            \<not> good st' \<and>
            (\<exists>rest. m_errorStr st' =
               m_errorStr (addErrorStr (''Unknown option: '' @ [char_of (optopt g1)]) st) @ rest) \<and>
            snd (collect_rest argv' (optind g') (m_arguments st')) =
              fold add (drop (optind g') argv') (m_arguments st)) \<and>
         (\<forall>g0 st' argv' g'. g = g0\<lparr>opterr := 0\<rparr> \<and>
              parse gl argv st g0 = Some (Inr (st', argv', g')) \<longrightarrow>
            \<not> good st' \<and>
            (\<exists>st1 gend. parse_loop gl st argv g = Some (Inr (st1, argv', gend)) \<and>
               m_arguments st' = fold add (drop (optind gend) argv') (m_arguments st)))"
proof -
  let ?st1 = "addErrorStr (''Unknown option: '' @ [char_of (optopt g1)]) st"
  note eq = parse_loop_unknown [where gl = gl and st = st and argv = argv and g = g, OF assms]
  have loop: "\<not> good st' \<and> (\<exists>rest. m_errorStr st' = m_errorStr ?st1 @ rest) \<and>
            snd (collect_rest argv' (optind g') (m_arguments st')) =
              fold add (drop (optind g') argv') (m_arguments st)"
    if run: "parse_loop gl st argv g = Some (Inr (st', argv', g'))" for st' argv' g'
  proof -
    from run eq have run1: "parse_loop gl ?st1 argv1 g1 = Some (Inr (st', argv', g'))" by simp
    from parse_loop_errors_grow [OF run1]
    obtain rest where e: "m_errorStr st' = m_errorStr ?st1 @ rest" by blast
    have "m_errorStr ?st1 \<noteq> []" by (simp add: addErrorStr_def)
    with e have "\<not> good st'" by (simp add: good_def)
    moreover from parse_loop_frame [OF run] have "m_arguments st' = m_arguments st" by blast
    ultimately show ?thesis using e by (simp add: collect_rest_fold)
  qed
  have whole: "\<not> good st' \<and>
            (\<exists>st1 gend. parse_loop gl st argv g = Some (Inr (st1, argv', gend)) \<and>
               m_arguments st' = fold add (drop (optind gend) argv') (m_arguments st))"
    if g: "g = g0\<lparr>opterr := 0\<rparr>" and p: "parse gl argv st g0 = Some (Inr (st', argv', g'))"
    for g0 st' argv' g'
  proof -
    from parse_unfold [OF p] g obtain st1 gend
      where run: "parse_loop gl st argv g = Some (Inr (st1, argv', gend))"
        and st': "st' = st1\<lparr>m_arguments := fold add (drop (optind gend) argv') (m_arguments st1)\<rparr>"
      by blast
    from loop [OF run] have ng: "\<not> good st1" by blast
    from parse_loop_frame [OF run] have "m_arguments st1 = m_arguments st" by blast
    with ng run show ?thesis by (auto simp: st' good_def)
  qed
  from eq loop whole show ?thesis by blast
qed

text \<open>
  The theorem with the scanner model, the usage text \<open>-a, --all\<close> and the arguments
  \<open>prog -z f1 f2\<close>.
\<close>

theorem unknown_option_is_not_fatal_witness:
  "m_longOptions (operator_shl ''-a, --all'' CmdOption_new) \<noteq> [] \<and>
   (\<exists>oi av1 g1.
      getopt_long_model [''prog'', ''-z'', ''f1'', ''f2'']
        (m_shortOptStr (operator_shl ''-a, --all'' CmdOption_new))
        (m_longOptions (operator_shl ''-a, --all'' CmdOption_new))
        (getopt_initial\<lparr>opterr := 0\<rparr>) = (of_char (CHR ''?''), oi, av1, g1) \<and>
      char_of (optopt g1) = CHR ''z'') \<and>
   (\<exists>st' av g'.
      parse getopt_long_model [''prog'', ''-z'', ''f1'', ''f2'']
        (operator_shl ''-a, --all'' CmdOption_new) getopt_initial = Some (Inr (st', av, g')) \<and>
      \<not> good st' \<and> m_errorStr st' = ''Unknown option: z'' \<and>
      m_arguments st' = \<lparr>m_text = ''f1'' @ [CHR 0x0A] @ ''f2'', m_count = 2\<rparr> \<and>
      (\<exists>st1 gend.
         parse_loop getopt_long_model (operator_shl ''-a, --all'' CmdOption_new)
           [''prog'', ''-z'', ''f1'', ''f2''] (getopt_initial\<lparr>opterr := 0\<rparr>)
           = Some (Inr (st1, av, gend)) \<and>
         m_arguments st' =
           fold add (drop (optind gend) av)
             (m_arguments (operator_shl ''-a, --all'' CmdOption_new))))"
proof -
  let ?T = "operator_shl ''-a, --all'' CmdOption_new"
  let ?argv = "[''prog'', ''-z'', ''f1'', ''f2'']"
  have ne: "m_longOptions ?T \<noteq> []"
    by (simp add: table_defs)
  have "\<exists>oi av1 g1.
      getopt_long_model ?argv (m_shortOptStr ?T) (m_longOptions ?T) (getopt_initial\<lparr>opterr := 0\<rparr>)
        = (of_char (CHR ''?''), oi, av1, g1) \<and> char_of (optopt g1) = CHR ''z''"
    by (simp add: table_defs dispatch_defs del: of_char_Char)
  then obtain oi av1 g1
    where sc: "getopt_long_model ?argv (m_shortOptStr ?T) (m_longOptions ?T)
                 (getopt_initial\<lparr>opterr := 0\<rparr>) = (of_char (CHR ''?''), oi, av1, g1)"
      and z: "char_of (optopt g1) = CHR ''z''"
    by blast
  have "\<exists>st' av g'.
      parse getopt_long_model ?argv ?T getopt_initial = Some (Inr (st', av, g')) \<and>
      m_errorStr st' = ''Unknown option: z'' \<and>
      m_arguments st' = \<lparr>m_text = ''f1'' @ [CHR 0x0A] @ ''f2'', m_count = 2\<rparr>"
    by (simp add: table_defs dispatch_defs del: of_char_Char)
  then obtain st' av g'
    where run: "parse getopt_long_model ?argv ?T getopt_initial = Some (Inr (st', av, g'))"
      and f: "m_errorStr st' = ''Unknown option: z''"
        "m_arguments st' = \<lparr>m_text = ''f1'' @ [CHR 0x0A] @ ''f2'', m_count = 2\<rparr>"
    by blast
  note t = unknown_option_is_not_fatal
             [where gl = getopt_long_model and st = ?T and argv = ?argv
                and g = "getopt_initial\<lparr>opterr := 0\<rparr>", OF ne sc,
              THEN conjunct2, THEN conjunct2, rule_format, of getopt_initial st' av g']
  from t run have "\<not> good st' \<and>
      (\<exists>st1 gend.
         parse_loop getopt_long_model ?T ?argv (getopt_initial\<lparr>opterr := 0\<rparr>)
           = Some (Inr (st1, av, gend)) \<and>
         m_arguments st' = fold add (drop (optind gend) av) (m_arguments ?T))"
    by blast
  with ne sc z run f show ?thesis by blast
qed

section \<open>Tables built from a usage text\<close>

lemma set_names_length: "length (set_names i nms opts) = length opts"
  by (induction nms arbitrary: i opts) simp_all

lemma set_names_beyond:
  "i + length nms \<le> j \<Longrightarrow> set_names i nms opts ! j = opts ! j"
  by (induction nms arbitrary: i opts) simp_all

lemma parseLine_tables:
  assumes "length (m_longOptions s) = length (m_longOptNames s)"
    and "CHR 0x00 \<notin> set (m_shortOptStr s)"
  shows "length (m_longOptions (parseLine i l s)) = length (m_longOptNames (parseLine i l s)) \<and>
         CHR 0x00 \<notin> set (m_shortOptStr (parseLine i l s))"
  using assms
  by (auto simp: parseLine_def parseOptLine_def register_aliases_fields Let_def
      split: loop_exit.splits)

lemma init_loop_tables:
  assumes "length (m_longOptions s) = length (m_longOptNames s)"
    and "CHR 0x00 \<notin> set (m_shortOptStr s)"
  shows "length (m_longOptions (init_loop i ls s)) = length (m_longOptNames (init_loop i ls s)) \<and>
         CHR 0x00 \<notin> set (m_shortOptStr (init_loop i ls s))"
  using assms
proof (induction ls arbitrary: i s)
  case Nil
  then show ?case by simp
next
  case (Cons l ls)
  from parseLine_tables [OF Cons.prems, of i l] Cons.IH [of "parseLine i l s" "i + 1"] Cons.prems
  show ?case by simp
qed

text \<open>
  After \<open>operator<<\<close> on a new object the descriptor list is one longer than the name
  list, its last entry has no name, and the short option string has no character 0.
\<close>

lemma operator_shl_tables:
  fixes usage :: string
  defines "T \<equiv> operator_shl usage CmdOption_new"
  shows "length (m_longOptions T) = length (m_longOptNames T) + 1"
    and "lo_name (m_longOptions T ! length (m_longOptNames T)) = None"
    and "CHR 0x00 \<notin> set (m_shortOptStr T)"
proof -
  let ?s0 = "CmdOption_new\<lparr>m_usage := usage\<rparr>"
  let ?s1 = "init_loop 0 (getlines usage) ?s0"
  have "length (m_longOptions ?s0) = length (m_longOptNames ?s0)"
    and "CHR 0x00 \<notin> set (m_shortOptStr ?s0)"
    by (simp_all add: CmdOption_new_def)
  from init_loop_tables [OF this, of 0 "getlines usage"]
  have len: "length (m_longOptions ?s1) = length (m_longOptNames ?s1)"
    and nul: "CHR 0x00 \<notin> set (m_shortOptStr ?s1)"
    by simp_all
  show "length (m_longOptions T) = length (m_longOptNames T) + 1"
    by (simp add: T_def operator_shl_def init_def Let_def set_names_length len)
  show "lo_name (m_longOptions T ! length (m_longOptNames T)) = None"
    by (simp add: T_def operator_shl_def init_def Let_def set_names_beyond len [symmetric]
        nth_append)
  show "CHR 0x00 \<notin> set (m_shortOptStr T)"
    using nul by (simp add: T_def operator_shl_def init_def Let_def)
qed

lemma find_long_index:
  "find_long nm ps k0 = Some (k, p) \<Longrightarrow>
     k0 \<le> k \<and> k - k0 < length ps \<and> lo_name (ps ! (k - k0)) = Some nm"
proof (induction ps arbitrary: k0)
  case Nil
  then show ?case by simp
next
  case (Cons q ps)
  show ?case
  proof (cases "lo_name q = Some nm")
    case True
    with Cons.prems show ?thesis by simp
  next
    case False
    with Cons.prems have "find_long nm ps (k0 + 1) = Some (k, p)"
      by (simp split: option.splits if_splits)
    from Cons.IH [OF this] show ?thesis
      by (auto simp: nth_Cons' Suc_diff_Suc)
  qed
qed

lemma find_short_member: "find_short c s = Some n \<Longrightarrow> c \<in> set s"
  by (induction s) (auto split: if_splits)

lemma missing_signal_nonzero: "missing_signal s \<noteq> 0"
  by (simp add: missing_signal_def)

lemma short_step_zero:
  assumes "short_step argv s g = (0, oi, argv', g')"
  shows "CHR 0x00 \<in> set s"
proof -
  from assms have i: "optind g < length argv" and n: "nextchar g < length (argv ! optind g)"
    by (auto simp: short_step_def split: if_splits)
  let ?c = "argv ! optind g ! nextchar g"
  from assms i n obtain k where f: "find_short ?c s = Some k" and z: "(of_char ?c :: int) = 0"
    using missing_signal_nonzero [of s]
    by (auto simp: short_step_def Let_def split: if_splits option.splits)
  from z have "?c = CHR 0x00" by (simp only: of_char_int_eq_0)
  with find_short_member [OF f] show ?thesis by simp
qed

lemma long_step_zero:
  assumes "long_step argv s l g a = (0, oi, argv', g')"
  shows "\<exists>nm p. find_long nm l 0 = Some (oi, p)"
  using assms missing_signal_nonzero [of s]
  by (auto simp: long_step_def Let_def split: if_splits option.splits prod.splits)

lemma getopt_long_model_zero:
  assumes "getopt_long_model argv s l g = (0, oi, argv', g')" and "CHR 0x00 \<notin> set s"
  shows "\<exists>nm p. find_long nm l 0 = Some (oi, p)"
  using assms short_step_zero [of argv s _ oi argv' g'] long_step_zero [of argv s l _ _ oi argv' g']
  by (auto simp: getopt_long_model_def Let_def split: if_splits)

text \<open>
  With the scanner model and a table as \<open>operator<<\<close> leaves it, the scan loop returns
  a state: nothing undefined is reached.
\<close>

lemma parse_loop_model_returns:
  assumes "length (m_longOptions st) = length (m_longOptNames st) + 1"
    and "lo_name (m_longOptions st ! length (m_longOptNames st)) = None"
    and "CHR 0x00 \<notin> set (m_shortOptStr st)"
  shows "\<exists>st' g'. parse_loop getopt_long_model st argv g = Some (Inr (st', argv, g'))"
  using assms
proof (induction "unread argv g" arbitrary: st g rule: less_induct)
  case less
  note inv = less.prems
  obtain c oi argv1 g1
    where sc: "getopt_long_model argv (m_shortOptStr st) (m_longOptions st) g = (c, oi, argv1, g1)"
    by (cases "getopt_long_model argv (m_shortOptStr st) (m_longOptions st) g") auto
  have ne: "m_longOptions st \<noteq> []" using inv(1) by auto
  have av: "argv1 = argv"
    using sc by (auto simp: getopt_long_model_def short_step_def long_step_def Let_def
        split: if_splits option.splits prod.splits)
  show ?case
  proof (cases "c < 0")
    case True
    with sc ne av show ?thesis by (subst parse_loop.simps) simp
  next
    case False
    then have "0 \<le> c" by simp
    from getopt_long_model_unread [OF sc this]
    have lt: "unread argv g1 < unread argv g" by simp
    note sc' = sc [unfolded av]
    have IH: "\<exists>st' g'. parse_loop getopt_long_model s argv g1 = Some (Inr (st', argv, g'))"
      if "m_longOptions s = m_longOptions st" "m_longOptNames s = m_longOptNames st"
        "m_shortOptStr s = m_shortOptStr st" for s
      using less.hyps [OF lt, of s] inv that by simp
    have err: "\<exists>st' g'. parse_loop getopt_long_model (addErrorStr msg st) argv g1
                 = Some (Inr (st', argv, g'))" for msg
      by (rule IH) simp_all
    have occ: "\<exists>st' g'. parse_loop getopt_long_model (record_occurrence i a st) argv g1
                 = Some (Inr (st', argv, g'))" for i a
      by (rule IH) simp_all
    have ins: "\<exists>st' g'. parse_loop getopt_long_model
                 (record_occurrence i a (st\<lparr>m_indexMap := m\<rparr>)) argv g1
                 = Some (Inr (st', argv, g'))" for i a m
      by (rule IH) simp_all
    show ?thesis
    proof (cases "c = 0")
      case True
      from getopt_long_model_zero [OF sc [unfolded True] inv(3)]
      obtain nm p where "find_long nm (m_longOptions st) 0 = Some (oi, p)" by blast
      from find_long_index [OF this] inv(1,2) have oi: "oi < length (m_longOptNames st)"
        by (cases "oi = length (m_longOptNames st)") auto
      from sc' ne True oi show ?thesis
        by (subst parse_loop.simps) (simp add: Let_def occ ins split: option.splits)
    next
      case nz: False
      from sc' ne False nz show ?thesis
        by (subst parse_loop.simps) (simp add: Let_def err occ split: option.splits)
    qed
  qed
qed

lemma parse_model_returns:
  "\<exists>st' g'. parse getopt_long_model argv (operator_shl usage CmdOption_new) g
             = Some (Inr (st', argv, g')) \<and> optind g' = 0"
proof -
  from parse_loop_model_returns [OF operator_shl_tables, of usage argv "g\<lparr>opterr := 0\<rparr>"]
  obtain st1 g1
    where "parse_loop getopt_long_model (operator_shl usage CmdOption_new) argv (g\<lparr>opterr := 0\<rparr>)
           = Some (Inr (st1, argv, g1))"
    by blast
  then show ?thesis by (simp add: parse_def collect_rest_fold)
qed

section \<open>The cursor after parse\<close>

lemma parse_optind:
  assumes "parse gl argv st g = Some (Inr (st', argv', g'))"
  shows "optind g' = 0"
  using parse_unfold [OF assms] by auto

lemma parse_loop_first_call:
  assumes "gl argv (m_shortOptStr st) (m_longOptions st) g =
           gl argv (m_shortOptStr st) (m_longOptions st) h"
  shows "parse_loop gl st argv g = parse_loop gl st argv h"
  by (rule trans [OF parse_loop.simps], rule trans [OF _ parse_loop.simps [symmetric]])
     (simp only: assms)

lemma getopt_long_model_restart:
  "optind h = 0 \<Longrightarrow>
   getopt_long_model av s l h = getopt_long_model av s l (getopt_initial\<lparr>opterr := opterr h\<rparr>)"
  by (simp add: getopt_long_model_def getopt_initial_def)

text \<open>
  C8. Whenever \<open>parse\<close> returns, with any scanner and on any input, it leaves the
  cursor \<open>optind\<close> at 0, the value that makes the scanner start again. With the scanner
  model \<open>parse\<close> ends for every object, argument list and scanner state; for an object
  that was new when it got its usage text it returns a state, with the cursor at 0. And for a
  scanner that, called with the cursor at 0, behaves as from its initial state
  \<open>g_init\<close>, a second call of \<open>parse\<close>, on any object and argument list, in the
  scanner state the first call left gives exactly what it gives in the initial state.
\<close>

theorem parse_resets_cursor:
  "(parse gl argv st g = Some (Inr (st', argv', g')) \<longrightarrow> optind g' = 0) \<and>
   (\<exists>r. parse getopt_long_model argv st gm = Some r) \<and>
   (\<exists>st1 g1. parse getopt_long_model argv (operator_shl usage CmdOption_new) gm
              = Some (Inr (st1, argv, g1)) \<and> optind g1 = 0) \<and>
   ((\<forall>av s l h. optind h = 0 \<longrightarrow> gl av s l h = gl av s l (g_init\<lparr>opterr := opterr h\<rparr>)) \<and>
    parse gl argv st g = Some (Inr (st', argv', g')) \<longrightarrow>
      parse gl argv2 st2 g' = parse gl argv2 st2 g_init)"
proof -
  have third: "parse gl argv2 st2 g' = parse gl argv2 st2 g_init"
    if restart: "\<forall>av s l h. optind h = 0 \<longrightarrow> gl av s l h = gl av s l (g_init\<lparr>opterr := opterr h\<rparr>)"
      and run: "parse gl argv st g = Some (Inr (st', argv', g'))"
  proof -
    from parse_optind [OF run] have "optind (g'\<lparr>opterr := 0\<rparr>) = 0" by simp
    with restart
    have "gl argv2 (m_shortOptStr st2) (m_longOptions st2) (g'\<lparr>opterr := 0\<rparr>) =
          gl argv2 (m_shortOptStr st2) (m_longOptions st2) (g_init\<lparr>opterr := opterr (g'\<lparr>opterr := 0\<rparr>)\<rparr>)"
      by blast
    then have "gl argv2 (m_shortOptStr st2) (m_longOptions st2) (g'\<lparr>opterr := 0\<rparr>) =
          gl argv2 (m_shortOptStr st2) (m_longOptions st2) (g_init\<lparr>opterr := 0\<rparr>)"
      by simp
    then have "parse_loop gl st2 argv2 (g'\<lparr>opterr := 0\<rparr>) = parse_loop gl st2 argv2 (g_init\<lparr>opterr := 0\<rparr>)"
      by (rule parse_loop_first_call)
    then show ?thesis by (simp add: parse_def)
  qed
  from parse_optind [of gl argv st g st' argv' g'] parse_model_total [of argv st gm]
    parse_model_returns [of argv usage gm] third
  show ?thesis by blast
qed

text \<open>
  The theorem with the scanner model: a call on \<open>prog -a x\<close>, then a call of another
  object on \<open>prog -a y\<close>, whose positional arguments are \<open>y\<close> alone.
\<close>

theorem parse_resets_cursor_witness:
  "\<exists>st' av g'.
     parse getopt_long_model [''prog'', ''-a'', ''x''] (operator_shl ''-a'' CmdOption_new)
       getopt_initial = Some (Inr (st', av, g')) \<and>
     optind g' = 0 \<and>
     parse getopt_long_model [''prog'', ''-a'', ''y''] (operator_shl ''-a'' CmdOption_new) g' =
     parse getopt_long_model [''prog'', ''-a'', ''y''] (operator_shl ''-a'' CmdOption_new)
       getopt_initial \<and>
     (\<exists>st2 av2 g2.
        parse getopt_long_model [''prog'', ''-a'', ''y''] (operator_shl ''-a'' CmdOption_new) g'
          = Some (Inr (st2, av2, g2)) \<and>
        m_arguments st2 = \<lparr>m_text = ''y'', m_count = 1\<rparr> \<and> optind g2 = 0)"
proof -
  let ?T = "operator_shl ''-a'' CmdOption_new"
  have "\<exists>st' av g'.
     parse getopt_long_model [''prog'', ''-a'', ''x''] ?T getopt_initial = Some (Inr (st', av, g'))"
    by (simp add: table_defs dispatch_defs del: of_char_Char)
  then obtain st' av g'
    where run: "parse getopt_long_model [''prog'', ''-a'', ''x''] ?T getopt_initial
                = Some (Inr (st', av, g'))"
    by blast
  have restart: "\<forall>av s l h. optind h = 0 \<longrightarrow>
      getopt_long_model av s l h = getopt_long_model av s l (getopt_initial\<lparr>opterr := opterr h\<rparr>)"
    by (simp add: getopt_long_model_restart)
  note t = parse_resets_cursor
             [where gl = getopt_long_model and argv = "[''prog'', ''-a'', ''x'']" and st = ?T
                and g = getopt_initial and st' = st' and argv' = av and g' = g'
                and g_init = getopt_initial and ?argv2.0 = "[''prog'', ''-a'', ''y'']"
                and ?st2.0 = ?T and gm = getopt_initial]
  from t run restart have zero: "optind g' = 0"
    and same: "parse getopt_long_model [''prog'', ''-a'', ''y''] ?T g' =
               parse getopt_long_model [''prog'', ''-a'', ''y''] ?T getopt_initial"
    by blast+
  have "\<exists>st2 av2 g2.
        parse getopt_long_model [''prog'', ''-a'', ''y''] ?T getopt_initial
          = Some (Inr (st2, av2, g2)) \<and>
        m_arguments st2 = \<lparr>m_text = ''y'', m_count = 1\<rparr> \<and> optind g2 = 0"
    by (simp add: table_defs dispatch_defs del: of_char_Char)
  with run zero same show ?thesis by (simp del: of_char_Char)
qed

section \<open>The collections across calls\<close>

lemma record_then_extend:
  assumes rest: "\<forall>i. m_options st' i =
      (let vals = map snd (filter (\<lambda>p. fst p = i) occ) in
       if vals = [] then m_options (record_occurrence j a s) i
       else Some (fold add vals
              (case m_options (record_occurrence j a s) i of
                 None \<Rightarrow> StringValue_default | Some sv \<Rightarrow> sv)))"
    and same: "m_options s = m_options st"
  shows "\<forall>i. m_options st' i =
      (let vals = map snd (filter (\<lambda>p. fst p = i)
                    ((j, case a of Some x \<Rightarrow> x | None \<Rightarrow> []) # occ)) in
       if vals = [] then m_options st i
       else Some (fold add vals
              (case m_options st i of None \<Rightarrow> StringValue_default | Some sv \<Rightarrow> sv)))"
proof
  fix i
  from rest have r: "m_options st' i =
      (let vals = map snd (filter (\<lambda>p. fst p = i) occ) in
       if vals = [] then m_options (record_occurrence j a s) i
       else Some (fold add vals
              (case m_options (record_occurrence j a s) i of
                 None \<Rightarrow> StringValue_default | Some sv \<Rightarrow> sv)))" ..
  show "m_options st' i =
      (let vals = map snd (filter (\<lambda>p. fst p = i)
                    ((j, case a of Some x \<Rightarrow> x | None \<Rightarrow> []) # occ)) in
       if vals = [] then m_options st i
       else Some (fold add vals
              (case m_options st i of None \<Rightarrow> StringValue_default | Some sv \<Rightarrow> sv)))"
  proof (cases "i = j")
    case True
    with r same show ?thesis
      by (simp add: record_occurrence_def Let_def)
  next
    case False
    with r same show ?thesis
      by (simp add: record_occurrence_def Let_def)
  qed
qed

text \<open>
  The scan loop, when it returns, leaves each value collection as it was with exactly
  the texts of the recorded occurrences of its index added, in their order.
\<close>

lemma parse_loop_records:
  assumes run: "parse_loop gl st argv g = Some (Inr (st', argv', g'))"
  shows "\<exists>occ. recorded_occurrences gl st argv g = Some occ \<and>
           (\<forall>i. m_options st' i =
              (let vals = map snd (filter (\<lambda>p. fst p = i) occ) in
               if vals = [] then m_options st i
               else Some (fold add vals
                      (case m_options st i of None \<Rightarrow> StringValue_default | Some sv \<Rightarrow> sv))))"
proof -
  have "\<forall>st' argv' g'. r = Inr (st', argv', g') \<longrightarrow>
          (\<exists>occ. recorded_occurrences gl st argv g = Some occ \<and>
           (\<forall>i. m_options st' i =
              (let vals = map snd (filter (\<lambda>p. fst p = i) occ) in
               if vals = [] then m_options st i
               else Some (fold add vals
                      (case m_options st i of None \<Rightarrow> StringValue_default | Some sv \<Rightarrow> sv)))))"
    if "parse_loop gl st argv g = Some r" for r
  proof (induction gl st argv g r rule: parse_loop.raw_induct)
    case (1 loop gl st argv g r)
    note IH = "1.IH"
    note body = "1.hyps"
    let ?Q = "\<lambda>s occ st'. \<forall>i. m_options st' i =
              (let vals = map snd (filter (\<lambda>p. fst p = i) occ) in
               if vals = [] then m_options s i
               else Some (fold add vals
                      (case m_options s i of None \<Rightarrow> StringValue_default | Some sv \<Rightarrow> sv)))"
    obtain c oi argv1 g1
      where sc: "gl argv (m_shortOptStr st) (m_longOptions st) g = (c, oi, argv1, g1)"
      by (cases "gl argv (m_shortOptStr st) (m_longOptions st) g") auto
    have fin: "\<exists>occ. recorded_occurrences gl st argv g = Some occ \<and> ?Q st occ st"
      if "recorded_occurrences gl st argv g = Some []"
      using that by (intro exI [of _ "[]"]) simp
    have skip: "\<exists>occ. recorded_occurrences gl st argv g = Some occ \<and> ?Q st occ st'"
      if "loop gl s1 argv1 g1 = Some (Inr (st', argv', g'))"
        "recorded_occurrences gl st argv g = recorded_occurrences gl s1 argv1 g1"
        "m_options s1 = m_options st" for s1 st' argv' g'
    proof -
      from IH [OF that(1)] obtain occ
        where o: "recorded_occurrences gl s1 argv1 g1 = Some occ" and q: "?Q s1 occ st'"
        by blast
      from q have "?Q st occ st'" unfolding that(3) .
      with o that(2) show ?thesis by simp
    qed
    have rec: "\<exists>occ. recorded_occurrences gl st argv g = Some occ \<and> ?Q st occ st'"
      if l: "loop gl (record_occurrence j a s) argv1 g1 = Some (Inr (st', argv', g'))"
        and e: "recorded_occurrences gl st argv g =
           Option.bind (recorded_occurrences gl (record_occurrence j a s) argv1 g1)
             (\<lambda>occ. Some ((j, case a of Some x \<Rightarrow> x | None \<Rightarrow> []) # occ))"
        and m: "m_options s = m_options st" for j a s st' argv' g'
    proof -
      from IH [OF l] obtain occ
        where o: "recorded_occurrences gl (record_occurrence j a s) argv1 g1 = Some occ"
          and q: "?Q (record_occurrence j a s) occ st'"
        by blast
      from record_then_extend [OF q m]
      have "?Q st ((j, case a of Some x \<Rightarrow> x | None \<Rightarrow> []) # occ) st'" .
      moreover from e o have "recorded_occurrences gl st argv g =
          Some ((j, case a of Some x \<Rightarrow> x | None \<Rightarrow> []) # occ)"
        by simp
      ultimately show ?thesis by blast
    qed
    show ?case
    proof (intro allI impI)
      fix st' argv' g'
      assume r: "r = Inr (st', argv', g')"
      show "\<exists>occ. recorded_occurrences gl st argv g = Some occ \<and> ?Q st occ st'"
      proof (cases "m_longOptions st = []")
        case True
        with body r show ?thesis by simp
      next
        case ne: False
        show ?thesis
        proof (cases "c < 0")
          case True
          with body sc ne r have "st' = st" by simp
          moreover from True sc ne have "recorded_occurrences gl st argv g = Some []"
            by (subst recorded_occurrences.simps) simp
          ultimately show ?thesis using fin by simp
        next
          case nneg: False
          show ?thesis
          proof (cases "c = 0")
            case True
            from body sc ne True r have oi: "oi < length (m_longOptNames st)"
              by (auto split: if_splits)
            let ?nm = "m_longOptNames st ! oi"
            let ?s1 = "if m_indexMap st ?nm = None
                       then st\<lparr>m_indexMap := (m_indexMap st)(?nm \<mapsto> 0)\<rparr> else st"
            let ?ix = "case m_indexMap ?s1 ?nm of Some i \<Rightarrow> i | None \<Rightarrow> 0"
            from body sc ne True oi r
            have l: "loop gl (record_occurrence ?ix (optarg g1) ?s1) argv1 g1
                     = Some (Inr (st', argv', g'))"
              by (simp add: Let_def)
            from sc ne True oi
            have e: "recorded_occurrences gl st argv g =
               Option.bind (recorded_occurrences gl (record_occurrence ?ix (optarg g1) ?s1) argv1 g1)
                 (\<lambda>occ. Some ((?ix, case optarg g1 of Some x \<Rightarrow> x | None \<Rightarrow> []) # occ))"
              by (subst recorded_occurrences.simps) (simp add: Let_def)
            have m: "m_options ?s1 = m_options st" by simp
            from rec [OF l e m] show ?thesis .
          next
            case nz: False
            show ?thesis
            proof (cases "c = of_char (CHR ''?'')")
              case True
              let ?s1 = "addErrorStr (''Unknown option: '' @ [char_of (optopt g1)]) st"
              from body sc ne nneg nz True r
              have l: "loop gl ?s1 argv1 g1 = Some (Inr (st', argv', g'))" by simp
              from sc ne nneg nz True
              have e: "recorded_occurrences gl st argv g = recorded_occurrences gl ?s1 argv1 g1"
                by (subst recorded_occurrences.simps) simp
              from skip [OF l e] show ?thesis by simp
            next
              case nq: False
              show ?thesis
              proof (cases "c = of_char (CHR '':'')")
                case True
                let ?s1 = "addErrorStr (''Missing argument for: '' @ [char_of (optopt g1)]) st"
                from body sc ne nneg nz nq True r
                have l: "loop gl ?s1 argv1 g1 = Some (Inr (st', argv', g'))" by simp
                from sc ne nneg nz nq True
                have e: "recorded_occurrences gl st argv g = recorded_occurrences gl ?s1 argv1 g1"
                  by (subst recorded_occurrences.simps) simp
                from skip [OF l e] show ?thesis by simp
              next
                case nc: False
                show ?thesis
                proof (cases "m_indexMap st [char_of c]")
                  case None
                  with body sc ne nneg nz nq nc r
                  have s: "st' = addErrorStr (''unknown short option: '' @ [char_of c]) st"
                    by (simp add: Let_def)
                  from None sc ne nneg nz nq nc
                  have "recorded_occurrences gl st argv g = Some []"
                    by (subst recorded_occurrences.simps) (simp add: Let_def)
                  then show ?thesis by (intro exI [of _ "[]"]) (simp add: s)
                next
                  case (Some ix)
                  with body sc ne nneg nz nq nc r
                  have l: "loop gl (record_occurrence ix (optarg g1) st) argv1 g1
                           = Some (Inr (st', argv', g'))"
                    by (simp add: Let_def)
                  from Some sc ne nneg nz nq nc
                  have e: "recorded_occurrences gl st argv g =
                     Option.bind (recorded_occurrences gl (record_occurrence ix (optarg g1) st) argv1 g1)
                       (\<lambda>occ. Some ((ix, case optarg g1 of Some x \<Rightarrow> x | None \<Rightarrow> []) # occ))"
                    by (subst recorded_occurrences.simps) (simp add: Let_def)
                  from rec [OF l e refl] show ?thesis .
                qed
              qed
            qed
          qed
        qed
      qed
    qed
  qed (fact that)
  with run show ?thesis by blast
qed

lemma parse_tables_kept:
  assumes "parse gl argv st g = Some (Inr (st', argv', g'))"
  shows "m_longOptions st' = m_longOptions st \<and> m_longOptNames st' = m_longOptNames st \<and>
         m_shortOptStr st' = m_shortOptStr st"
proof -
  from parse_unfold [OF assms] obtain st1 g1
    where loop: "parse_loop gl st argv (g\<lparr>opterr := 0\<rparr>) = Some (Inr (st1, argv', g1))"
      and st': "st' = st1\<lparr>m_arguments := fold add (drop (optind g1) argv') (m_arguments st1)\<rparr>"
    by blast
  from parse_loop_frame [OF loop] show ?thesis by (simp add: st')
qed

lemma parse_model_returns_again:
  assumes "length (m_longOptions st) = length (m_longOptNames st) + 1"
    and "lo_name (m_longOptions st ! length (m_longOptNames st)) = None"
    and "CHR 0x00 \<notin> set (m_shortOptStr st)"
  shows "\<exists>st' g'. parse getopt_long_model argv st g = Some (Inr (st', argv, g'))"
proof -
  from parse_loop_model_returns [OF assms, of argv "g\<lparr>opterr := 0\<rparr>"]
  obtain st1 g1
    where "parse_loop getopt_long_model st argv (g\<lparr>opterr := 0\<rparr>) = Some (Inr (st1, argv, g1))"
    by blast
  then show ?thesis by (simp add: parse_def collect_rest_fold)
qed

text \<open>What one call of \<open>parse\<close> that returns does to the collections.\<close>

lemma parse_records:
  assumes "parse gl argv st g = Some (Inr (st', argv', g'))"
  shows "\<exists>occ st1 gend.
           recorded_occurrences gl st argv (g\<lparr>opterr := 0\<rparr>) = Some occ \<and>
           parse_loop gl st argv (g\<lparr>opterr := 0\<rparr>) = Some (Inr (st1, argv', gend)) \<and>
           m_arguments st' = fold add (drop (optind gend) argv') (m_arguments st) \<and>
           m_count (m_arguments st) \<le> m_count (m_arguments st') \<and>
           (\<forall>i. m_options st' i =
              (let vals = map snd (filter (\<lambda>p. fst p = i) occ) in
               if vals = [] then m_options st i
               else Some (fold add vals
                      (case m_options st i of None \<Rightarrow> StringValue_default | Some sv \<Rightarrow> sv))))"
proof -
  from parse_unfold [OF assms] obtain st1 gend
    where loop: "parse_loop gl st argv (g\<lparr>opterr := 0\<rparr>) = Some (Inr (st1, argv', gend))"
      and st': "st' = st1\<lparr>m_arguments := fold add (drop (optind gend) argv') (m_arguments st1)\<rparr>"
    by blast
  have args: "m_arguments st1 = m_arguments st"
    using parse_loop_frame [OF loop] by blast
  have a: "m_arguments st' = fold add (drop (optind gend) argv') (m_arguments st)"
    by (simp add: st' args)
  have b: "m_count (m_arguments st) \<le> m_count (m_arguments st')"
    by (simp add: a fold_add_count)
  have c: "m_options st' = m_options st1" by (simp add: st')
  from parse_loop_records [OF loop] obtain occ
    where o: "recorded_occurrences gl st argv (g\<lparr>opterr := 0\<rparr>) = Some occ"
      and q: "\<forall>i. m_options st1 i =
              (let vals = map snd (filter (\<lambda>p. fst p = i) occ) in
               if vals = [] then m_options st i
               else Some (fold add vals
                      (case m_options st i of None \<Rightarrow> StringValue_default | Some sv \<Rightarrow> sv)))"
    by blast
  from o loop a b q show ?thesis unfolding c by blast
qed

text \<open>
  C2 (as amended). The value collections are members of the object, and \<open>parse\<close> only
  adds to them. Whenever \<open>parse\<close> returns, with any scanner: the positional arguments
  are those held before the call followed by the tokens of \<open>argv\<close> from the scanner's
  final cursor on, in order, so their count never drops; and the collection of every
  identity is the one held before the call, untouched when the call recorded no
  occurrence of the identity, and otherwise with exactly the texts of the call's
  occurrences of the identity added after its earlier content, in the order of the
  scan (starting from an empty value when there was none). So the collections hold
  only what this call found exactly when they were empty before it. With the scanner
  model, for every usage text given to a new object and every two argument lists, both
  calls return, and the second call leaves the collections of the first call extended
  in this way.
\<close>

theorem parse_appends_to_collections:
  "(parse gl argv st g = Some (Inr (st', argv', g')) \<longrightarrow>
      (\<exists>occ st1 gend.
         recorded_occurrences gl st argv (g\<lparr>opterr := 0\<rparr>) = Some occ \<and>
         parse_loop gl st argv (g\<lparr>opterr := 0\<rparr>) = Some (Inr (st1, argv', gend)) \<and>
         m_arguments st' = fold add (drop (optind gend) argv') (m_arguments st) \<and>
         m_count (m_arguments st) \<le> m_count (m_arguments st') \<and>
         (\<forall>i. m_options st' i =
            (let vals = map snd (filter (\<lambda>p. fst p = i) occ) in
             if vals = [] then m_options st i
             else Some (fold add vals
                    (case m_options st i of None \<Rightarrow> StringValue_default | Some sv \<Rightarrow> sv)))))) \<and>
   (\<exists>sa ga sb gb occ gend.
      parse getopt_long_model argv1 (operator_shl usage CmdOption_new) gm
        = Some (Inr (sa, argv1, ga)) \<and>
      parse getopt_long_model argv2 sa ga = Some (Inr (sb, argv2, gb)) \<and>
      recorded_occurrences getopt_long_model sa argv2 (ga\<lparr>opterr := 0\<rparr>) = Some occ \<and>
      (\<exists>s1. parse_loop getopt_long_model sa argv2 (ga\<lparr>opterr := 0\<rparr>)
               = Some (Inr (s1, argv2, gend))) \<and>
      m_arguments sb = fold add (drop (optind gend) argv2) (m_arguments sa) \<and>
      (\<forall>i. m_options sb i =
         (let vals = map snd (filter (\<lambda>p. fst p = i) occ) in
          if vals = [] then m_options sa i
          else Some (fold add vals
                 (case m_options sa i of None \<Rightarrow> StringValue_default | Some sv \<Rightarrow> sv)))))"
proof -
  have first: "\<exists>occ st1 gend.
         recorded_occurrences gl st argv (g\<lparr>opterr := 0\<rparr>) = Some occ \<and>
         parse_loop gl st argv (g\<lparr>opterr := 0\<rparr>) = Some (Inr (st1, argv', gend)) \<and>
         m_arguments st' = fold add (drop (optind gend) argv') (m_arguments st) \<and>
         m_count (m_arguments st) \<le> m_count (m_arguments st') \<and>
         (\<forall>i. m_options st' i =
            (let vals = map snd (filter (\<lambda>p. fst p = i) occ) in
             if vals = [] then m_options st i
             else Some (fold add vals
                    (case m_options st i of None \<Rightarrow> StringValue_default | Some sv \<Rightarrow> sv))))"
    if "parse gl argv st g = Some (Inr (st', argv', g'))"
    using that by (rule parse_records)
  let ?T = "operator_shl usage CmdOption_new"
  from parse_model_returns [of argv1 usage gm] obtain sa ga
    where ra: "parse getopt_long_model argv1 ?T gm = Some (Inr (sa, argv1, ga))"
    by blast
  from parse_tables_kept [OF ra] operator_shl_tables [of usage]
  have "length (m_longOptions sa) = length (m_longOptNames sa) + 1"
    and "lo_name (m_longOptions sa ! length (m_longOptNames sa)) = None"
    and "CHR 0x00 \<notin> set (m_shortOptStr sa)"
    by simp_all
  from parse_model_returns_again [OF this, of argv2 ga] obtain sb gb
    where rb: "parse getopt_long_model argv2 sa ga = Some (Inr (sb, argv2, gb))"
    by blast
  from parse_records [OF rb] ra rb
  have "\<exists>sa ga sb gb occ gend.
      parse getopt_long_model argv1 ?T gm = Some (Inr (sa, argv1, ga)) \<and>
      parse getopt_long_model argv2 sa ga = Some (Inr (sb, argv2, gb)) \<and>
      recorded_occurrences getopt_long_model sa argv2 (ga\<lparr>opterr := 0\<rparr>) = Some occ \<and>
      (\<exists>s1. parse_loop getopt_long_model sa argv2 (ga\<lparr>opterr := 0\<rparr>)
               = Some (Inr (s1, argv2, gend))) \<and>
      m_arguments sb = fold add (drop (optind gend) argv2) (m_arguments sa) \<and>
      (\<forall>i. m_options sb i =
         (let vals = map snd (filter (\<lambda>p. fst p = i) occ) in
          if vals = [] then m_options sa i
          else Some (fold add vals
                 (case m_options sa i of None \<Rightarrow> StringValue_default | Some sv \<Rightarrow> sv))))"
    by blast
  with first show ?thesis by blast
qed

text \<open>
  The theorem at the second of two calls, with the usage text \<open>-f FILE\<close>, on
  \<open>prog -f v1 x\<close> and then \<open>prog -f v2 y z\<close>: the second call records one occurrence
  of the identity 0, with the text \<open>v2\<close>, and ends with the cursor at 3.
\<close>

theorem parse_appends_to_collections_witness:
  "\<exists>st1 av1 g1 st2 av2 g2 gend s1.
     parse getopt_long_model [''prog'', ''-f'', ''v1'', ''x''] (operator_shl ''-f FILE'' CmdOption_new)
       getopt_initial = Some (Inr (st1, av1, g1)) \<and>
     parse getopt_long_model [''prog'', ''-f'', ''v2'', ''y'', ''z''] st1 g1
       = Some (Inr (st2, av2, g2)) \<and>
     recorded_occurrences getopt_long_model st1 [''prog'', ''-f'', ''v2'', ''y'', ''z'']
       (g1\<lparr>opterr := 0\<rparr>) = Some [(0, ''v2'')] \<and>
     parse_loop getopt_long_model st1 [''prog'', ''-f'', ''v2'', ''y'', ''z''] (g1\<lparr>opterr := 0\<rparr>)
       = Some (Inr (s1, av2, gend)) \<and>
     optind gend = 3 \<and>
     m_arguments st2 = fold add (drop (optind gend) av2) (m_arguments st1) \<and>
     m_arguments st1 = \<lparr>m_text = ''x'', m_count = 1\<rparr> \<and>
     m_arguments st2 = \<lparr>m_text = ''x'' @ [CHR 0x0A] @ ''y'' @ [CHR 0x0A] @ ''z'', m_count = 3\<rparr> \<and>
     m_options st1 0 = Some \<lparr>m_text = ''v1'', m_count = 1\<rparr> \<and>
     m_options st2 0 = Some (fold add [''v2''] \<lparr>m_text = ''v1'', m_count = 1\<rparr>) \<and>
     m_options st2 0 = Some \<lparr>m_text = ''v1'' @ [CHR 0x0A] @ ''v2'', m_count = 2\<rparr>"
proof -
  have "\<exists>st1 av1 g1 st2 av2 g2 gend s1.
     parse getopt_long_model [''prog'', ''-f'', ''v1'', ''x''] (operator_shl ''-f FILE'' CmdOption_new)
       getopt_initial = Some (Inr (st1, av1, g1)) \<and>
     parse getopt_long_model [''prog'', ''-f'', ''v2'', ''y'', ''z''] st1 g1
       = Some (Inr (st2, av2, g2)) \<and>
     recorded_occurrences getopt_long_model st1 [''prog'', ''-f'', ''v2'', ''y'', ''z'']
       (g1\<lparr>opterr := 0\<rparr>) = Some [(0, ''v2'')] \<and>
     parse_loop getopt_long_model st1 [''prog'', ''-f'', ''v2'', ''y'', ''z''] (g1\<lparr>opterr := 0\<rparr>)
       = Some (Inr (s1, av2, gend)) \<and>
     optind gend = 3 \<and>
     m_arguments st1 = \<lparr>m_text = ''x'', m_count = 1\<rparr> \<and>
     m_arguments st2 = \<lparr>m_text = ''x'' @ [CHR 0x0A] @ ''y'' @ [CHR 0x0A] @ ''z'', m_count = 3\<rparr> \<and>
     m_options st1 0 = Some \<lparr>m_text = ''v1'', m_count = 1\<rparr> \<and>
     m_options st2 0 = Some \<lparr>m_text = ''v1'' @ [CHR 0x0A] @ ''v2'', m_count = 2\<rparr>"
    by (simp add: table_defs dispatch_defs recorded_occurrences.simps del: of_char_Char)
  then obtain st1 av1 g1 st2 av2 g2 gend s1
    where r1: "parse getopt_long_model [''prog'', ''-f'', ''v1'', ''x'']
                 (operator_shl ''-f FILE'' CmdOption_new) getopt_initial
               = Some (Inr (st1, av1, g1))"
      and r2: "parse getopt_long_model [''prog'', ''-f'', ''v2'', ''y'', ''z''] st1 g1
               = Some (Inr (st2, av2, g2))"
      and o: "recorded_occurrences getopt_long_model st1 [''prog'', ''-f'', ''v2'', ''y'', ''z'']
                (g1\<lparr>opterr := 0\<rparr>) = Some [(0, ''v2'')]"
      and l: "parse_loop getopt_long_model st1 [''prog'', ''-f'', ''v2'', ''y'', ''z'']
                (g1\<lparr>opterr := 0\<rparr>) = Some (Inr (s1, av2, gend))"
      and f: "optind gend = 3"
        "m_arguments st1 = \<lparr>m_text = ''x'', m_count = 1\<rparr>"
        "m_arguments st2 = \<lparr>m_text = ''x'' @ [CHR 0x0A] @ ''y'' @ [CHR 0x0A] @ ''z'', m_count = 3\<rparr>"
        "m_options st1 0 = Some \<lparr>m_text = ''v1'', m_count = 1\<rparr>"
        "m_options st2 0 = Some \<lparr>m_text = ''v1'' @ [CHR 0x0A] @ ''v2'', m_count = 2\<rparr>"
    by blast
  note t = parse_appends_to_collections
             [where gl = getopt_long_model and argv = "[''prog'', ''-f'', ''v2'', ''y'', ''z'']"
                and st = st1 and g = g1 and st' = st2 and argv' = av2 and g' = g2,
              THEN conjunct1, rule_format, OF r2]
  from t o l obtain
    a: "m_arguments st2 = fold add (drop (optind gend) av2) (m_arguments st1)"
    and b: "m_options st2 0 =
            (let vals = map snd (filter (\<lambda>p. fst p = 0) [(0 :: int, ''v2'')]) in
             if vals = [] then m_options st1 0
             else Some (fold add vals
                    (case m_options st1 0 of None \<Rightarrow> StringValue_default | Some sv \<Rightarrow> sv)))"
    by auto
  from b f have c: "m_options st2 0 = Some (fold add [''v2''] \<lparr>m_text = ''v1'', m_count = 1\<rparr>)"
    by simp
  from r1 r2 o l f a c show ?thesis by blast
qed

text \<open>
  C2 as stated fails. With the usage text \<open>-a\<close>, a first call on \<open>prog -a x\<close> and a
  second call of the same object on \<open>prog y\<close>: after the second call the positional
  arguments are \<open>x\<close> and \<open>y\<close>, and the identity 0 still has its occurrence from the
  first call although the second argument list holds no option.
\<close>

theorem parse_keeps_earlier_collections:
  "\<exists>st1 av1 g1 st2 av2 g2.
     parse getopt_long_model [''prog'', ''-a'', ''x''] (operator_shl ''-a'' CmdOption_new)
       getopt_initial = Some (Inr (st1, av1, g1)) \<and>
     parse getopt_long_model [''prog'', ''y''] st1 g1 = Some (Inr (st2, av2, g2)) \<and>
     m_arguments st2 = \<lparr>m_text = ''x'' @ [CHR 0x0A] @ ''y'', m_count = 2\<rparr> \<and>
     m_options st2 0 = Some \<lparr>m_text = [], m_count = 1\<rparr>"
  by (simp add: table_defs dispatch_defs del: of_char_Char)

end
